theory Spec2Isabelle
  imports Main "HOL-Library.Word"
begin

unbundle bit_operations_syntax

section \<open>The dynamic memory manager of lab-3-memory (memmgr.c)\<close>

text \<open>
  The allocator keeps an implicit free list with boundary tags inside a data
  segment handed out by the dataseg module.  A heap word is an
  \<^verbatim>\<open>unsigned long\<close> of eight bytes, so every size, tag and address is a
  \<^typ>\<open>64 word\<close> and all arithmetic wraps round as it does in C.  Memory is
  byte addressed; a word is read and written little-endian, eight bytes at a
  time, so that overlapping accesses behave as they do on the machine.
  Logging (\<^verbatim>\<open>LOG\<close>, \<^verbatim>\<open>mm_setloglevel\<close>) has no effect on the heap and is left out.
\<close>

type_synonym word64 = "64 word"
type_synonym memory = "word64 \<Rightarrow> 8 word"

subsection \<open>Raw memory: \<^verbatim>\<open>PUT\<close>, \<^verbatim>\<open>GET\<close>, \<^verbatim>\<open>memcpy\<close>, \<^verbatim>\<open>memset\<close>\<close>

definition byte_of :: "word64 \<Rightarrow> nat \<Rightarrow> 8 word" where
  "byte_of v i = ucast (drop_bit (8 * i) v)"

text \<open>\<^verbatim>\<open>#define PUT(p, v) (*(TYPE*)(p) = (TYPE)(v))\<close>\<close>

definition PUT :: "memory \<Rightarrow> word64 \<Rightarrow> word64 \<Rightarrow> memory" where
  "PUT m p v = (\<lambda>a. if a - p < 8 then byte_of v (unat (a - p)) else m a)"

text \<open>\<^verbatim>\<open>#define GET(p) (*(TYPE*)(p))\<close>\<close>

definition GET :: "memory \<Rightarrow> word64 \<Rightarrow> word64" where
  "GET m p = ucast (m p) OR push_bit 8 (ucast (m (p + 1))) OR push_bit 16 (ucast (m (p + 2)))
     OR push_bit 24 (ucast (m (p + 3))) OR push_bit 32 (ucast (m (p + 4)))
     OR push_bit 40 (ucast (m (p + 5))) OR push_bit 48 (ucast (m (p + 6)))
     OR push_bit 56 (ucast (m (p + 7)))"

text \<open>
  \<^verbatim>\<open>memcpy(dst, src, n)\<close> and \<^verbatim>\<open>memset(dst, c, n)\<close> of the C library.  The copy
  reads the memory as it was before the call (the two regions of the one call
  in \<^verbatim>\<open>mm_realloc\<close> are different blocks).
\<close>

definition memcpy :: "memory \<Rightarrow> word64 \<Rightarrow> word64 \<Rightarrow> word64 \<Rightarrow> memory" where
  "memcpy m dst src n = (\<lambda>a. if a - dst < n then m (src + (a - dst)) else m a)"

definition memset :: "memory \<Rightarrow> word64 \<Rightarrow> 8 word \<Rightarrow> word64 \<Rightarrow> memory" where
  "memset m dst c n = (\<lambda>a. if a - dst < n then c else m a)"

subsection \<open>The data segment provider\<close>

text \<open>
  Modelled from the spec: the dataseg module (\<^verbatim>\<open>dataseg.h\<close>, \<^verbatim>\<open>dataseg.c\<close>) is not
  part of the sources.  The specification describes it as a contiguous byte
  range that grows or shrinks at its high end by a signed byte delta, reports
  its start, its break and the page size, and returns the new break or a
  failure indicator when the range cannot be moved.  \<^verbatim>\<open>mm_malloc\<close> tests the
  result against \<^verbatim>\<open>NULL\<close>, so the failure indicator is the null pointer here.
\<close>

record dataseg =
  seg_start :: word64
  seg_brk :: word64
  seg_limit :: word64
  seg_pagesize :: int

definition ds_sbrk :: "dataseg \<Rightarrow> word64 \<Rightarrow> word64 \<times> dataseg" where
  "ds_sbrk d increment =
     (let nb = uint (seg_brk d) + sint increment in
      if uint (seg_start d) \<le> nb \<and> nb \<le> uint (seg_limit d)
      then (word_of_int nb, d\<lparr>seg_brk := word_of_int nb\<rparr>)
      else (0, d))"

subsection \<open>Allocator state\<close>

datatype AllocationPolicy = ap_FirstFit | ap_NextFit | ap_BestFit | ap_Invalid

text \<open>The three functions \<^verbatim>\<open>get_free_block\<close> can point to.\<close>

datatype policy = ff_policy | nf_policy | bf_policy

datatype 'a res = Panic | Ret 'a

text \<open>
  The static variables of memmgr.c, together with the provider and the memory
  they live on.  \<^verbatim>\<open>CHUNKSIZE\<close> and \<^verbatim>\<open>SHRINKTHLD\<close> are never assigned and are
  constants below.
\<close>

record mm_state =
  mem :: memory
  seg :: dataseg
  ds_heap_start :: word64
  ds_heap_brk :: word64
  heap_start :: word64
  heap_end :: word64
  PAGESIZE :: int
  get_free_block :: "policy option"
  next_block :: word64
  mm_initialized :: bool

definition CHUNKSIZE :: word64 where "CHUNKSIZE = 1024"
definition SHRINKTHLD :: word64 where "SHRINKTHLD = 1024"

text \<open>The state of the module before \<^verbatim>\<open>mm_init\<close>, on provider \<open>d\<close> and memory \<open>m\<close>.\<close>

definition mm_fresh :: "dataseg \<Rightarrow> memory \<Rightarrow> mm_state" where
  "mm_fresh d m = \<lparr>mem = m, seg = d, ds_heap_start = 0, ds_heap_brk = 0, heap_start = 0,
     heap_end = 0, PAGESIZE = 0, get_free_block = None, next_block = 0, mm_initialized = False\<rparr>"

subsection \<open>Macros\<close>

definition TYPE_SIZE :: word64 where "TYPE_SIZE = 8"
definition ALLOC :: word64 where "ALLOC = 1"
definition FREE :: word64 where "FREE = 0"
definition STATUS_MASK :: word64 where "STATUS_MASK = 7"
definition SIZE_MASK :: word64 where "SIZE_MASK = NOT STATUS_MASK"
definition BS :: word64 where "BS = 32"

definition MAX_of :: "word64 \<Rightarrow> word64 \<Rightarrow> word64" where
  "MAX_of a b = (if a > b then a else b)"

definition PACK :: "word64 \<Rightarrow> word64 \<Rightarrow> word64" where
  "PACK sz status = sz OR status"

definition SIZE :: "word64 \<Rightarrow> word64" where
  "SIZE v = v AND SIZE_MASK"

definition STATUS :: "word64 \<Rightarrow> word64" where
  "STATUS v = v AND STATUS_MASK"

definition PREV_PTR :: "word64 \<Rightarrow> word64" where
  "PREV_PTR p = p - TYPE_SIZE"

definition NEXT_PTR :: "word64 \<Rightarrow> word64" where
  "NEXT_PTR p = p + TYPE_SIZE"

definition ROUND_UP :: "word64 \<Rightarrow> word64" where
  "ROUND_UP w = (w + BS - 1) div BS * BS"

definition put :: "mm_state \<Rightarrow> word64 \<Rightarrow> word64 \<Rightarrow> mm_state" where
  "put s p v = s\<lparr>mem := PUT (mem s) p v\<rparr>"

definition GET_SIZE :: "mm_state \<Rightarrow> word64 \<Rightarrow> word64" where
  "GET_SIZE s p = SIZE (GET (mem s) p)"

definition GET_STATUS :: "mm_state \<Rightarrow> word64 \<Rightarrow> word64" where
  "GET_STATUS s p = STATUS (GET (mem s) p)"

definition HDR2FTR :: "mm_state \<Rightarrow> word64 \<Rightarrow> word64" where
  "HDR2FTR s p = p + GET_SIZE s p - TYPE_SIZE"

definition FTR2HDR :: "mm_state \<Rightarrow> word64 \<Rightarrow> word64" where
  "FTR2HDR s p = p - GET_SIZE s p + TYPE_SIZE"

definition NEXT_BLK :: "mm_state \<Rightarrow> word64 \<Rightarrow> word64" where
  "NEXT_BLK s p = p + GET_SIZE s p"

definition NEXT_BLK_FROM_PAYLOAD :: "mm_state \<Rightarrow> word64 \<Rightarrow> word64" where
  "NEXT_BLK_FROM_PAYLOAD s p = p + GET_SIZE s (PREV_PTR p)"

text \<open>\<^verbatim>\<open>ds_heap_stat(&ds_heap_start, &ds_heap_brk, NULL); PAGESIZE = ds_getpagesize();\<close>\<close>

definition ds_heap_stat :: "mm_state \<Rightarrow> mm_state" where
  "ds_heap_stat s = s\<lparr>ds_heap_start := seg_start (seg s), ds_heap_brk := seg_brk (seg s),
     PAGESIZE := seg_pagesize (seg s)\<rparr>"

subsection \<open>\<^verbatim>\<open>mm_init\<close>\<close>

fun policy_of :: "AllocationPolicy \<Rightarrow> policy option" where
  "policy_of ap_FirstFit = Some ff_policy"
| "policy_of ap_NextFit = Some nf_policy"
| "policy_of ap_BestFit = Some bf_policy"
| "policy_of ap_Invalid = None"

text \<open>Lines 216--244: the heap is laid out over the first chunk.\<close>

definition init_heap :: "mm_state \<Rightarrow> mm_state" where
  "init_heap s0 =
     (let s1 = ds_heap_stat (s0\<lparr>seg := snd (ds_sbrk (seg s0) CHUNKSIZE)\<rparr>);
          s2 = s1\<lparr>heap_start := (ds_heap_start s1 div BS + 1) * BS\<rparr>;
          s3 = s2\<lparr>heap_end := (ds_heap_brk s2 - TYPE_SIZE) div BS * BS\<rparr>;
          s4 = put s3 (PREV_PTR (heap_start s3)) (PACK 0 ALLOC);
          initial_free_block_size = heap_end s4 - heap_start s4;
          s5 = put s4 (heap_start s4) (PACK initial_free_block_size FREE);
          s6 = put s5 (PREV_PTR (heap_end s5)) (PACK initial_free_block_size FREE);
          s7 = put s6 (heap_end s6) (PACK 0 ALLOC)
      in s7\<lparr>mm_initialized := True\<rparr>)"

definition mm_init :: "mm_state \<Rightarrow> AllocationPolicy \<Rightarrow> mm_state res" where
  "mm_init s ap =
     (case policy_of ap of
        None \<Rightarrow> Panic
      | Some f \<Rightarrow>
          (let s1 = ds_heap_stat (s\<lparr>get_free_block := Some f\<rparr>) in
           if ds_heap_start s1 = 0 then Panic
           else if ds_heap_start s1 \<noteq> ds_heap_brk s1 then Panic
           else if PAGESIZE s1 = 0 then Panic
           else Ret (init_heap s1)))"

subsection \<open>Block selection policies\<close>

partial_function (option) ff_loop :: "mm_state \<Rightarrow> word64 \<Rightarrow> word64 \<Rightarrow> word64 option" where
  "ff_loop s sz current_block =
     (if current_block < heap_end s then
        (if GET_STATUS s current_block = 0 \<and> GET_SIZE s current_block \<ge> sz
         then Some current_block
         else ff_loop s sz (current_block + GET_SIZE s current_block))
      else Some 0)"

definition ff_get_free_block :: "mm_state \<Rightarrow> word64 \<Rightarrow> (mm_state \<times> word64) res option" where
  "ff_get_free_block s sz =
     (if \<not> mm_initialized s then Some Panic
      else map_option (\<lambda>r. Ret (s, r)) (ff_loop s sz (heap_start s)))"

partial_function (option) nf_loop :: "mm_state \<Rightarrow> word64 \<Rightarrow> word64 \<Rightarrow> (mm_state \<times> word64) option" where
  "nf_loop s sz initial_next_block =
     (if GET_STATUS s (next_block s) = 0 \<and> GET_SIZE s (next_block s) \<ge> sz
      then Some (s, next_block s)
      else
        (let s1 = s\<lparr>next_block := next_block s + GET_SIZE s (next_block s)\<rparr>;
             s2 = (if next_block s1 \<ge> heap_end s1 then s1\<lparr>next_block := heap_start s1\<rparr> else s1)
         in if next_block s2 = initial_next_block then Some (s2, 0)
            else nf_loop s2 sz initial_next_block))"

text \<open>Lines 504--507: a null or out-of-range cursor restarts at \<^verbatim>\<open>heap_start\<close>.\<close>

definition nf_reset :: "mm_state \<Rightarrow> mm_state" where
  "nf_reset s =
     (if next_block s = 0 \<or> next_block s \<ge> heap_end s
      then s\<lparr>next_block := heap_start s\<rparr> else s)"

definition nf_get_free_block :: "mm_state \<Rightarrow> word64 \<Rightarrow> (mm_state \<times> word64) res option" where
  "nf_get_free_block s sz =
     (if \<not> mm_initialized s then Some Panic
      else map_option Ret (nf_loop (nf_reset s) sz (next_block (nf_reset s))))"

partial_function (option) bf_loop ::
  "mm_state \<Rightarrow> word64 \<Rightarrow> word64 \<Rightarrow> word64 \<Rightarrow> word64 \<Rightarrow> word64 option" where
  "bf_loop s sz best_fit_block smallest_diff current_block =
     (if current_block < heap_end s then
        (if GET_STATUS s current_block = 0 \<and> GET_SIZE s current_block \<ge> sz
            \<and> GET_SIZE s current_block - sz < smallest_diff
         then
           (if GET_SIZE s current_block - sz = 0 then Some current_block
            else bf_loop s sz current_block (GET_SIZE s current_block - sz)
                   (current_block + GET_SIZE s current_block))
         else bf_loop s sz best_fit_block smallest_diff
                (current_block + GET_SIZE s current_block))
      else Some best_fit_block)"

definition SIZE_MAX :: word64 where "SIZE_MAX = - 1"

definition bf_get_free_block :: "mm_state \<Rightarrow> word64 \<Rightarrow> (mm_state \<times> word64) res option" where
  "bf_get_free_block s sz =
     (if \<not> mm_initialized s then Some Panic
      else map_option (\<lambda>r. Ret (s, r)) (bf_loop s sz 0 SIZE_MAX (heap_start s)))"

text \<open>The call through the function pointer \<^verbatim>\<open>get_free_block\<close>; a null pointer crashes.\<close>

definition call_get_free_block :: "mm_state \<Rightarrow> word64 \<Rightarrow> (mm_state \<times> word64) res option" where
  "call_get_free_block s sz =
     (case get_free_block s of
        None \<Rightarrow> Some Panic
      | Some ff_policy \<Rightarrow> ff_get_free_block s sz
      | Some nf_policy \<Rightarrow> nf_get_free_block s sz
      | Some bf_policy \<Rightarrow> bf_get_free_block s sz)"

subsection \<open>\<^verbatim>\<open>mm_malloc\<close>\<close>

text \<open>
  Lines 263--302: no free block was found, the heap grows.  \<open>None\<close> is the
  early \<^verbatim>\<open>return NULL\<close> after a failed \<^verbatim>\<open>ds_sbrk\<close>.
\<close>

definition expand_heap :: "mm_state \<Rightarrow> word64 \<Rightarrow> (mm_state \<times> word64) option" where
  "expand_heap s blocksize =
     (let old_heap_end = heap_end s;
          expand_size = MAX_of CHUNKSIZE blocksize;
          r = ds_sbrk (seg s) expand_size
      in if fst r = 0 then None
         else
           (let s1 = ds_heap_stat (s\<lparr>seg := snd r\<rparr>);
                s2 = s1\<lparr>heap_end := (ds_heap_brk s1 - TYPE_SIZE) div BS * BS\<rparr>;
                expanded_block_size = heap_end s2 - old_heap_end;
                prev_block = PREV_PTR old_heap_end;
                merge = (GET_STATUS s2 prev_block = FREE);
                old_heap_end' = (if merge then old_heap_end - GET_SIZE s2 prev_block else old_heap_end);
                expanded_block_size' = (if merge then expanded_block_size + GET_SIZE s2 prev_block
                                        else expanded_block_size);
                s3 = put s2 old_heap_end' (PACK expanded_block_size' FREE);
                s4 = put s3 (HDR2FTR s3 old_heap_end') (PACK expanded_block_size' FREE);
                s5 = put s4 (heap_end s4) (PACK 0 ALLOC)
            in Some (s5, old_heap_end')))"

text \<open>Lines 304--318: the candidate block is split or taken whole.\<close>

definition place :: "mm_state \<Rightarrow> word64 \<Rightarrow> word64 \<Rightarrow> mm_state" where
  "place s free_block blocksize =
     (let free_block_size = GET_SIZE s free_block in
      if free_block_size \<ge> blocksize + 4 * TYPE_SIZE then
        (let s1 = put s free_block (PACK blocksize ALLOC);
             s2 = put s1 (HDR2FTR s1 free_block) (PACK blocksize ALLOC);
             remainder = NEXT_BLK s2 free_block;
             s3 = put s2 remainder (PACK (free_block_size - blocksize) FREE)
         in put s3 (HDR2FTR s3 remainder) (PACK (free_block_size - blocksize) FREE))
      else
        (let s1 = put s free_block (PACK free_block_size ALLOC)
         in put s1 (HDR2FTR s1 free_block) (PACK free_block_size ALLOC)))"

text \<open>
  Lines 261--302: the candidate block, from the policy or from growing the
  heap; \<open>None\<close> for the pointer is the \<^verbatim>\<open>return NULL\<close> after a failed \<^verbatim>\<open>ds_sbrk\<close>.
\<close>

definition find_block :: "mm_state \<Rightarrow> word64 \<Rightarrow> (mm_state \<times> word64 option) res option" where
  "find_block s blocksize =
     (case call_get_free_block s blocksize of
        None \<Rightarrow> None
      | Some Panic \<Rightarrow> Some Panic
      | Some (Ret (s1, free_block)) \<Rightarrow>
          (if free_block = 0 then
             (case expand_heap s1 blocksize of
                None \<Rightarrow> Some (Ret (s1, None))
              | Some (s2, fb) \<Rightarrow> Some (Ret (s2, Some fb)))
           else Some (Ret (s1, Some free_block))))"

definition mm_malloc :: "mm_state \<Rightarrow> word64 \<Rightarrow> (mm_state \<times> word64) res option" where
  "mm_malloc s sz =
     (if \<not> mm_initialized s then Some Panic
      else if sz = 0 then Some (Ret (s, 0))
      else
        (let blocksize = ROUND_UP (TYPE_SIZE + sz + TYPE_SIZE) in
         case find_block s blocksize of
           None \<Rightarrow> None
         | Some Panic \<Rightarrow> Some Panic
         | Some (Ret (s1, None)) \<Rightarrow> Some (Ret (s1, 0))
         | Some (Ret (s1, Some free_block)) \<Rightarrow>
             Some (Ret (place s1 free_block blocksize, free_block + TYPE_SIZE))))"

subsection \<open>\<^verbatim>\<open>mm_calloc\<close>\<close>

definition mm_calloc :: "mm_state \<Rightarrow> word64 \<Rightarrow> word64 \<Rightarrow> (mm_state \<times> word64) res option" where
  "mm_calloc s nmemb sz =
     (if \<not> mm_initialized s then Some Panic
      else
        (case mm_malloc s (nmemb * sz) of
           None \<Rightarrow> None
         | Some Panic \<Rightarrow> Some Panic
         | Some (Ret (s1, payload)) \<Rightarrow>
             (if payload \<noteq> 0
              then Some (Ret (s1\<lparr>mem := memset (mem s1) payload 0 (nmemb * sz)\<rparr>, payload))
              else Some (Ret (s1, payload)))))"

subsection \<open>\<^verbatim>\<open>mm_free\<close>\<close>

text \<open>Lines 440--447: merge with a free block on the left; returns the new header.\<close>

definition coalesce_prev :: "mm_state \<Rightarrow> word64 \<Rightarrow> word64 \<Rightarrow> mm_state \<times> word64 \<times> word64" where
  "coalesce_prev s sz head_ptr =
     (if GET_STATUS s (PREV_PTR head_ptr) = FREE then
        (let sz' = sz + GET_SIZE s (PREV_PTR head_ptr);
             s1 = put s (FTR2HDR s (PREV_PTR head_ptr)) (PACK sz' FREE);
             s2 = put s1 (HDR2FTR s1 head_ptr) (PACK sz' FREE)
         in (s2, sz', FTR2HDR s2 (PREV_PTR head_ptr)))
      else (s, sz, head_ptr))"

text \<open>Lines 449--454: merge with a free block on the right.\<close>

definition coalesce_next :: "mm_state \<Rightarrow> word64 \<Rightarrow> word64 \<Rightarrow> mm_state \<times> word64" where
  "coalesce_next s sz head_ptr =
     (if GET_STATUS s (NEXT_BLK s head_ptr) = FREE then
        (let sz' = sz + GET_SIZE s (NEXT_BLK s head_ptr);
             s1 = put s head_ptr (PACK sz' FREE);
             s2 = put s1 (HDR2FTR s1 head_ptr) (PACK sz' FREE)
         in (s2, sz'))
      else (s, sz))"

text \<open>Lines 456--466: a large trailing free block is given back to the provider.\<close>

definition shrink_heap :: "mm_state \<Rightarrow> word64 \<Rightarrow> word64 \<Rightarrow> mm_state" where
  "shrink_heap s sz head_ptr =
     (if NEXT_BLK s head_ptr = heap_end s \<and> sz \<ge> SHRINKTHLD then
        (let s1 = ds_heap_stat (s\<lparr>seg := snd (ds_sbrk (seg s) (- sz))\<rparr>);
             s2 = s1\<lparr>heap_end := heap_end s1 - sz\<rparr>
         in put s2 (heap_end s2) (PACK 0 ALLOC))
      else s)"

definition mm_free :: "mm_state \<Rightarrow> word64 \<Rightarrow> mm_state res" where
  "mm_free s ptr =
     (if \<not> mm_initialized s then Panic
      else
        (let head_ptr = PREV_PTR ptr in
         if ptr = 0 then Ret s
         else if GET_STATUS s head_ptr = FREE then Ret s
         else
           (let sz = GET_SIZE s head_ptr;
                s1 = put s head_ptr (PACK sz FREE);
                s2 = put s1 (HDR2FTR s1 head_ptr) (PACK sz FREE);
                (s3, size3, head3) = coalesce_prev s2 sz head_ptr;
                (s4, size4) = coalesce_next s3 size3 head3
            in Ret (shrink_heap s4 size4 head3))))"

subsection \<open>\<^verbatim>\<open>mm_realloc\<close>\<close>

text \<open>Lines 367--383: the block shrinks in place and its tail becomes free.\<close>

definition realloc_shrink :: "mm_state \<Rightarrow> word64 \<Rightarrow> word64 \<Rightarrow> word64 \<Rightarrow> mm_state" where
  "realloc_shrink s ptr old_size new_size =
     (let s1 = put s (HDR2FTR s (PREV_PTR ptr)) (PACK (old_size - new_size) FREE);
          s2 = put s1 (FTR2HDR s1 (HDR2FTR s1 (PREV_PTR ptr))) (PACK (old_size - new_size) FREE);
          s4 = (if GET_STATUS s2 (NEXT_PTR (HDR2FTR s2 (PREV_PTR ptr))) = FREE then
                  (let new_free_size = GET_SIZE s2 (HDR2FTR s2 (PREV_PTR ptr))
                                       + GET_SIZE s2 (NEXT_PTR (HDR2FTR s2 (PREV_PTR ptr)));
                       s3 = put s2 (HDR2FTR s2 (NEXT_PTR (HDR2FTR s2 (PREV_PTR ptr))))
                                (PACK new_free_size FREE)
                   in put s3 (FTR2HDR s3 (HDR2FTR s3 (PREV_PTR ptr))) (PACK new_free_size FREE))
                else s2);
          s5 = put s4 (PREV_PTR ptr) (PACK new_size ALLOC)
      in put s5 (HDR2FTR s5 (PREV_PTR ptr)) (PACK new_size ALLOC))"

text \<open>Lines 390--395: the block grows into the block that follows it.\<close>

definition realloc_absorb :: "mm_state \<Rightarrow> word64 \<Rightarrow> word64 \<Rightarrow> word64 \<Rightarrow> word64 \<Rightarrow> mm_state" where
  "realloc_absorb s ptr old_size next_size new_size =
     (let s1 = put s (HDR2FTR s (NEXT_BLK s (PREV_PTR ptr)))
                 (PACK (old_size + next_size - new_size) FREE);
          s2 = put s1 (FTR2HDR s1 (HDR2FTR s1 (NEXT_BLK s1 (PREV_PTR ptr))))
                 (PACK (old_size + next_size - new_size) FREE);
          s3 = put s2 (PREV_PTR ptr) (PACK new_size ALLOC)
      in put s3 (HDR2FTR s3 (PREV_PTR ptr)) (PACK new_size ALLOC))"

text \<open>Lines 399--412: a new block is allocated, the data copied, the old block freed.\<close>

definition realloc_move :: "mm_state \<Rightarrow> word64 \<Rightarrow> word64 \<Rightarrow> word64 \<Rightarrow> (mm_state \<times> word64) res option" where
  "realloc_move s ptr sz old_size =
     (case mm_malloc s sz of
        None \<Rightarrow> None
      | Some Panic \<Rightarrow> Some Panic
      | Some (Ret (s1, new_ptr)) \<Rightarrow>
          (if new_ptr = 0 then Some (Ret (s1, 0))
           else
             (let copy_size = old_size - TYPE_SIZE;
                  s2 = s1\<lparr>mem := memcpy (mem s1) new_ptr ptr copy_size\<rparr>
              in case mm_free s2 ptr of
                   Panic \<Rightarrow> Some Panic
                 | Ret s3 \<Rightarrow> Some (Ret (s3, new_ptr)))))"

definition mm_realloc :: "mm_state \<Rightarrow> word64 \<Rightarrow> word64 \<Rightarrow> (mm_state \<times> word64) res option" where
  "mm_realloc s ptr sz =
     (if \<not> mm_initialized s then Some Panic
      else if ptr = 0 then mm_malloc s sz
      else if sz = 0 then
        (case mm_free s ptr of Panic \<Rightarrow> Some Panic | Ret s1 \<Rightarrow> Some (Ret (s1, 0)))
      else
        (let old_size = GET_SIZE s (PREV_PTR ptr);
             new_size = ROUND_UP (TYPE_SIZE + sz + TYPE_SIZE) in
         if new_size = old_size then Some (Ret (s, ptr))
         else if new_size < old_size then Some (Ret (realloc_shrink s ptr old_size new_size, ptr))
         else
           (let next_block = NEXT_BLK_FROM_PAYLOAD s ptr;
                next_size = GET_SIZE s next_block in
            if GET_STATUS s next_block = FREE \<and> old_size + next_size \<ge> new_size
            then Some (Ret (realloc_absorb s ptr old_size next_size new_size, ptr))
            else realloc_move s ptr sz old_size)))"

subsection \<open>\<^verbatim>\<open>mm_check\<close>\<close>

text \<open>
  The consistency walk of lines 606--643, without its printing: \<open>Panic\<close> when a
  footer differs from its header (\<^verbatim>\<open>mm_panic\<close>), otherwise whether the walk
  ended exactly at \<^verbatim>\<open>heap_end\<close> (``Block structure coherent'').
\<close>

partial_function (option) check_loop :: "mm_state \<Rightarrow> word64 \<Rightarrow> bool res option" where
  "check_loop s p =
     (if p < heap_end s then
        (let hdr = GET (mem s) p;
             sz = SIZE hdr;
             status = STATUS hdr;
             fp = p + sz - TYPE_SIZE;
             ftr = GET (mem s) fp
         in if sz \<noteq> SIZE ftr \<or> status \<noteq> STATUS ftr then Some Panic
            else if sz = 0 then Some (Ret (p + sz = heap_end s))
            else check_loop s (p + sz))
      else Some (Ret (p = heap_end s)))"

definition mm_check :: "mm_state \<Rightarrow> bool res option" where
  "mm_check s = (if \<not> mm_initialized s then Some Panic else check_loop s (heap_start s))"

subsection \<open>Client programs and example heaps\<close>

text \<open>
  A client program is a sequence of calls, each using the state and the
  pointers the earlier calls returned; it stops when a call does not return
  (\<open>None\<close>) or terminates the process (\<open>Panic\<close>).
\<close>

definition and_then :: "'a res option \<Rightarrow> ('a \<Rightarrow> 'b res option) \<Rightarrow> 'b res option" where
  "and_then r f = (case r of None \<Rightarrow> None | Some Panic \<Rightarrow> Some Panic | Some (Ret x) \<Rightarrow> f x)"

definition zero_mem :: memory where
  "zero_mem = (\<lambda>a. 0)"

text \<open>
  A clean provider whose range starts at 4096 (\<^verbatim>\<open>dataseg 0x3000000\<close> in the test
  scripts), and the heap \<^verbatim>\<open>mm_init\<close> builds on it: one free block of 960 bytes
  between the sentinels at 4120 and 5088.
\<close>

definition ex_seg :: dataseg where
  "ex_seg = \<lparr>seg_start = 4096, seg_brk = 4096, seg_limit = 0x3001000, seg_pagesize = 4096\<rparr>"

definition ex_heap :: "policy \<Rightarrow> mm_state" where
  "ex_heap f = \<lparr>mem = PUT (PUT (PUT (PUT zero_mem 4120 1) 4128 960) 5080 960) 5088 1,
     seg = \<lparr>seg_start = 4096, seg_brk = 5120, seg_limit = 0x3001000, seg_pagesize = 4096\<rparr>,
     ds_heap_start = 4096, ds_heap_brk = 5120, heap_start = 4128, heap_end = 5088,
     PAGESIZE = 4096, get_free_block = Some f, next_block = 0, mm_initialized = True\<rparr>"

text \<open>
  Under next fit: two blocks are allocated and freed in the order of their
  addresses, so that the second \<^verbatim>\<open>mm_free\<close> merges the block the cursor points to
  into its left neighbour.
\<close>

definition coalesced_client :: "mm_state res option" where
  "coalesced_client =
     and_then (Some (mm_init (mm_fresh ex_seg zero_mem) ap_NextFit)) (\<lambda>s0.
     and_then (mm_malloc s0 16) (\<lambda>(s1, a).
     and_then (mm_malloc s1 16) (\<lambda>(s2, b).
     and_then (Some (mm_free s2 a)) (\<lambda>s3.
     Some (mm_free s3 b)))))"

text \<open>The same calls, followed by two more allocations.\<close>

definition stale_cursor_client :: "mm_state res option" where
  "stale_cursor_client =
     and_then coalesced_client (\<lambda>s4.
     and_then (mm_malloc s4 16) (\<lambda>(s5, c).
     and_then (mm_malloc s5 16) (\<lambda>(s6, d). Some (Ret s6))))"

text \<open>
  Under first fit: a block is allocated and then grown while the block after
  it is free and large enough.  The result lists the pointer, the tag of the
  following block before the call, the pointer \<^verbatim>\<open>mm_realloc\<close> returned, and the
  tags of the old and of the new block afterwards.
\<close>

definition grow_client :: "(word64 \<times> word64 \<times> word64 \<times> word64 \<times> word64) res option" where
  "grow_client =
     and_then (Some (mm_init (mm_fresh ex_seg zero_mem) ap_FirstFit)) (\<lambda>s0.
     and_then (mm_malloc s0 16) (\<lambda>(s1, a).
     and_then (mm_realloc s1 a 48) (\<lambda>(s2, r).
       Some (Ret (a, GET (mem s1) (NEXT_BLK s1 (PREV_PTR a)), r,
                  GET (mem s2) (PREV_PTR a), GET (mem s2) (PREV_PTR r))))))"

text \<open>
  Under first fit: two blocks are allocated and the first is grown, so that
  it has to move.  The result lists the old pointer, the new pointer, the
  footer of the old block and the third payload word of the new block before
  the call, and that third payload word after the call.
\<close>

definition move_client :: "(word64 \<times> word64 \<times> word64 \<times> word64 \<times> word64) res option" where
  "move_client =
     and_then (Some (mm_init (mm_fresh ex_seg zero_mem) ap_FirstFit)) (\<lambda>s0.
     and_then (mm_malloc s0 16) (\<lambda>(s1, a).
     and_then (mm_malloc s1 16) (\<lambda>(s2, b).
     and_then (mm_realloc s2 a 48) (\<lambda>(s3, r).
       Some (Ret (a, r, GET (mem s2) (a + 16), GET (mem s2) (r + 16),
                  GET (mem s3) (r + 16)))))))"

text \<open>
  A client stores the word \<open>v\<close> at address \<open>p\<close> of a payload it owns
  (\<^verbatim>\<open>*(size_t *)p = v\<close>).
\<close>

definition store :: "mm_state \<Rightarrow> word64 \<Rightarrow> word64 \<Rightarrow> mm_state" where
  "store s p v = s\<lparr>mem := PUT (mem s) p v\<rparr>"

text \<open>
  Under first fit: \<open>a\<close> of 16 bytes and \<open>b\<close> of 112 bytes are allocated, the
  client stores three words into the payload of \<open>b\<close> (at offsets 0, 24 and 64 of
  its 112 bytes), grows \<open>a\<close> to 48 bytes and allocates 16 bytes more.  The
  result lists \<open>a\<close>, \<open>b\<close>, the pointer \<^verbatim>\<open>mm_realloc\<close> returned, the pointer the last
  \<^verbatim>\<open>mm_malloc\<close> returned and the remainder of that pointer modulo 32.
\<close>

definition payload_client :: "(word64 \<times> word64 \<times> word64 \<times> word64 \<times> nat) res option" where
  "payload_client =
     and_then (Some (mm_init (mm_fresh ex_seg zero_mem) ap_FirstFit)) (\<lambda>s0.
     and_then (mm_malloc s0 16) (\<lambda>(s1, a).
     and_then (mm_malloc s1 112) (\<lambda>(s2, b).
     and_then (mm_realloc (store (store (store s2 b 32) (b + 24) 41) (b + 64) 32) a 48) (\<lambda>(s3, r).
     and_then (mm_malloc s3 16) (\<lambda>(s4, c).
       Some (Ret (a, b, r, c, unat c mod 32)))))))"

text \<open>
  Under first fit: 880 bytes are allocated, then \<open>2\<^sup>6\<^sup>4 - 976\<close> bytes are requested,
  a block size of \<open>2\<^sup>6\<^sup>4 - 960\<close>.  The result lists the candidate block, the
  provider's start and break when the candidate was found, the pointer
  returned, and the word at 4056 before and after the second call.
\<close>

definition signed_growth_client ::
  "(word64 option \<times> word64 \<times> word64 \<times> word64 \<times> word64 \<times> word64) res option" where
  "signed_growth_client =
     and_then (Some (mm_init (mm_fresh ex_seg zero_mem) ap_FirstFit)) (\<lambda>s0.
     and_then (mm_malloc s0 880) (\<lambda>(s1, a).
     and_then (find_block s1 (ROUND_UP (TYPE_SIZE + 18446744073709550640 + TYPE_SIZE))) (\<lambda>(s2, fb).
     and_then (mm_malloc s1 18446744073709550640) (\<lambda>(s3, p).
       Some (Ret (fb, seg_start (seg s2), seg_brk (seg s2), p,
                  GET (mem s1) 4056, GET (mem s3) 4056))))))"

text \<open>Under first fit: a small allocation, then a request of \<open>2\<^sup>6\<^sup>4 - 16\<close> bytes.\<close>

definition overflow_client :: "mm_state res option" where
  "overflow_client =
     and_then (Some (mm_init (mm_fresh ex_seg zero_mem) ap_FirstFit)) (\<lambda>s0.
     and_then (mm_malloc s0 16) (\<lambda>(s1, a).
     and_then (mm_malloc s1 (- 16)) (\<lambda>(s2, b). Some (Ret s2))))"

subsection \<open>Alignment\<close>

text \<open>Addresses and sizes that are multiples of a word (8 bytes) or of \<^verbatim>\<open>BS\<close> (32 bytes).\<close>

definition a8 :: "word64 \<Rightarrow> bool" where
  "a8 x \<longleftrightarrow> 8 dvd x"

definition a32 :: "word64 \<Rightarrow> bool" where
  "a32 x \<longleftrightarrow> 32 dvd x"

subsection \<open>What the claims say\<close>

text \<open>
  The splitting rule of \<^verbatim>\<open>mm_malloc\<close>: \<open>s1\<close> is the state in which the candidate
  \<open>fb\<close> was found, \<open>s2\<close> the state after the call.  A candidate that exceeds the
  required block size by at least 32 bytes is split into an allocated block of
  that size and a free remainder; any other candidate is taken whole.
\<close>

definition split_rule :: "mm_state \<Rightarrow> word64 \<Rightarrow> word64 \<Rightarrow> mm_state \<Rightarrow> bool" where
  "split_rule s1 fb blocksize s2 \<longleftrightarrow>
     (if unat blocksize + 32 \<le> unat (GET_SIZE s1 fb)
      then GET (mem s2) fb = PACK blocksize ALLOC
         \<and> GET (mem s2) (fb + blocksize - 8) = PACK blocksize ALLOC
         \<and> GET (mem s2) (fb + blocksize) = PACK (GET_SIZE s1 fb - blocksize) FREE
         \<and> GET (mem s2) (fb + GET_SIZE s1 fb - 8) = PACK (GET_SIZE s1 fb - blocksize) FREE
      else GET (mem s2) fb = PACK (GET_SIZE s1 fb) ALLOC
         \<and> GET (mem s2) (fb + GET_SIZE s1 fb - 8) = PACK (GET_SIZE s1 fb) ALLOC)"

text \<open>
  The provider's range is \<open>[seg_start, seg_brk)\<close>; a word stored at \<open>p\<close> lies inside
  it when all of its 8 bytes do.  A candidate block is one the split can work
  on when the whole block lies inside the range and is at least the required
  block size; \<open>split_in_seg\<close> says that the tag words \<open>split_rule\<close> names lie inside
  the range.
\<close>

definition in_seg :: "mm_state \<Rightarrow> word64 \<Rightarrow> bool" where
  "in_seg s p \<longleftrightarrow> unat (seg_start (seg s)) \<le> unat p \<and> unat p + 8 \<le> unat (seg_brk (seg s))"

definition candidate_ok :: "mm_state \<Rightarrow> word64 \<Rightarrow> word64 \<Rightarrow> bool" where
  "candidate_ok s fb blocksize \<longleftrightarrow>
     unat (seg_start (seg s)) \<le> unat fb
     \<and> unat fb + unat (GET_SIZE s fb) \<le> unat (seg_brk (seg s))
     \<and> unat blocksize \<le> unat (GET_SIZE s fb)"

definition split_in_seg :: "mm_state \<Rightarrow> word64 \<Rightarrow> word64 \<Rightarrow> bool" where
  "split_in_seg s1 fb blocksize \<longleftrightarrow>
     (if unat blocksize + 32 \<le> unat (GET_SIZE s1 fb)
      then in_seg s1 fb \<and> in_seg s1 (fb + blocksize - 8)
         \<and> in_seg s1 (fb + blocksize) \<and> in_seg s1 (fb + GET_SIZE s1 fb - 8)
      else in_seg s1 fb \<and> in_seg s1 (fb + GET_SIZE s1 fb - 8))"

text \<open>
  A clean provider whose range starts at 4100, not on a word boundary, and the
  heap \<^verbatim>\<open>mm_init\<close> builds on it.
\<close>

definition ex_seg_odd :: dataseg where
  "ex_seg_odd = \<lparr>seg_start = 4100, seg_brk = 4100, seg_limit = 0x3001004, seg_pagesize = 4096\<rparr>"

definition ex_heap_odd :: mm_state where
  "ex_heap_odd = \<lparr>mem = PUT (PUT (PUT (PUT zero_mem 4120 1) 4128 960) 5080 960) 5088 1,
     seg = \<lparr>seg_start = 4100, seg_brk = 5124, seg_limit = 0x3001004, seg_pagesize = 4096\<rparr>,
     ds_heap_start = 4100, ds_heap_brk = 5124, heap_start = 4128, heap_end = 5088,
     PAGESIZE = 4096, get_free_block = Some ff_policy, next_block = 0, mm_initialized = True\<rparr>"

text \<open>
  Rounding an address to a 32-byte boundary, in the words of the specification:
  up as \<^verbatim>\<open>ROUND_UP\<close> does it, and down.
\<close>

definition round_down_32 :: "word64 \<Rightarrow> word64" where
  "round_down_32 x = x div 32 * 32"

text \<open>
  A clean provider with room for the first chunk only, the heap \<^verbatim>\<open>mm_init\<close> builds
  on it under next fit, and that heap after \<^verbatim>\<open>mm_malloc(16)\<close>.
\<close>

definition ex_seg_full :: dataseg where
  "ex_seg_full = \<lparr>seg_start = 4096, seg_brk = 4096, seg_limit = 5120, seg_pagesize = 4096\<rparr>"

definition ex_heap_full :: mm_state where
  "ex_heap_full = \<lparr>mem = PUT (PUT (PUT (PUT zero_mem 4120 1) 4128 960) 5080 960) 5088 1,
     seg = \<lparr>seg_start = 4096, seg_brk = 5120, seg_limit = 5120, seg_pagesize = 4096\<rparr>,
     ds_heap_start = 4096, ds_heap_brk = 5120, heap_start = 4128, heap_end = 5088,
     PAGESIZE = 4096, get_free_block = Some nf_policy, next_block = 0, mm_initialized = True\<rparr>"

definition ex_block_full :: mm_state where
  "ex_block_full = place (ex_heap_full\<lparr>next_block := 4128\<rparr>) 4128 32"

subsection \<open>Reachable states\<close>

text \<open>
  The states the public operations can reach from a clean provider with
  zero-filled memory, together with the pointers handed out so far, when the
  client only calls the operations and never stores into a payload.
  \<^verbatim>\<open>mm_realloc\<close> and \<^verbatim>\<open>mm_free\<close> are called with the null pointer or with a pointer
  an earlier call returned, whether or not it was freed since.
\<close>

inductive reach :: "mm_state \<Rightarrow> word64 set \<Rightarrow> bool" where
  reach_init: "mm_init (mm_fresh d zero_mem) ap = Ret s \<Longrightarrow> reach s {}"
| reach_malloc: "reach s H \<Longrightarrow> mm_malloc s n = Some (Ret (s', p)) \<Longrightarrow> reach s' (insert p H)"
| reach_calloc: "reach s H \<Longrightarrow> mm_calloc s k n = Some (Ret (s', p)) \<Longrightarrow> reach s' (insert p H)"
| reach_realloc: "reach s H \<Longrightarrow> p \<in> insert 0 H \<Longrightarrow> mm_realloc s p n = Some (Ret (s', q))
    \<Longrightarrow> reach s' (insert q H)"
| reach_free: "reach s H \<Longrightarrow> p \<in> insert 0 H \<Longrightarrow> mm_free s p = Ret s' \<Longrightarrow> reach s' H"

text \<open>
  What all reachable states have in common: the heap bounds and the cursor
  are multiples of 32, and so is the size field of every word of memory at a
  multiple of 8 (bits 3 and 4 of its low byte are clear).
\<close>

definition tags_aligned :: "memory \<Rightarrow> bool" where
  "tags_aligned m \<longleftrightarrow> (\<forall>a. a8 a \<longrightarrow> \<not> bit (m a) 3 \<and> \<not> bit (m a) 4)"

definition heap_aligned :: "mm_state \<Rightarrow> bool" where
  "heap_aligned s \<longleftrightarrow>
     a32 (heap_start s) \<and> a32 (heap_end s) \<and> a32 (next_block s) \<and> tags_aligned (mem s)"

text \<open>A pointer the operations may hand out: null, or 8 past a multiple of 32.\<close>

definition ptr_ok :: "word64 \<Rightarrow> bool" where
  "ptr_ok p \<longleftrightarrow> p = 0 \<or> a32 (p - 8)"

section \<open>Properties\<close>

subsection \<open>Alignment\<close>

lemma a8_take_bit: "a8 x \<longleftrightarrow> take_bit 3 x = 0"
  using take_bit_eq_0_iff[of 3 x] by (simp add: a8_def)
lemma a32_take_bit: "a32 x \<longleftrightarrow> take_bit 5 x = 0"
  using take_bit_eq_0_iff[of 5 x] by (simp add: a32_def)

lemma a32_a8: "a32 x \<Longrightarrow> a8 x"
proof -
  have "(8 :: word64) dvd 32" by (rule dvdI[where k=4]) simp
  then show "a32 x \<Longrightarrow> a8 x" unfolding a8_def a32_def by (rule dvd_trans)
qed

lemma a8_add: "a8 x \<Longrightarrow> a8 y \<Longrightarrow> a8 (x + y)" unfolding a8_def by (rule dvd_add)
lemma a8_diff: "a8 x \<Longrightarrow> a8 y \<Longrightarrow> a8 (x - y)" unfolding a8_def by (rule dvd_diff)
lemma a32_add: "a32 x \<Longrightarrow> a32 y \<Longrightarrow> a32 (x + y)" unfolding a32_def by (rule dvd_add)
lemma a32_diff: "a32 x \<Longrightarrow> a32 y \<Longrightarrow> a32 (x - y)" unfolding a32_def by (rule dvd_diff)
lemma a8_num: "a8 0" "a8 8" "a8 16" "a8 24" "a8 32" "a32 0" "a32 32" "a32 1024"
  by (simp_all add: a8_take_bit a32_take_bit)
lemma a32_mult: "a32 (x * 32)" unfolding a32_def by (rule dvd_triv_right)

lemma a8_unat: "a8 x \<longleftrightarrow> unat x mod 8 = 0"
proof -
  have "unat (take_bit 3 x) = unat x mod 8"
    by (simp add: take_bit_eq_mod unat_mod)
  then show ?thesis by (metis a8_take_bit unat_eq_0)
qed
lemma a32_unat: "a32 x \<longleftrightarrow> unat x mod 32 = 0"
proof -
  have "unat (take_bit 5 x) = unat x mod 32"
    by (simp add: take_bit_eq_mod unat_mod)
  then show ?thesis by (metis a32_take_bit unat_eq_0)
qed

lemma seven: "(7 :: word64) = mask 3" by (simp add: mask_eq_exp_minus_1)


lemma tb3_and_not7: "take_bit 3 (v AND NOT 7) = (0::word64)"
  unfolding seven by (rule bit_word_eqI) (simp add: bit_simps)

lemma a8_and_not7: "a8 (v AND NOT 7)"
  by (simp add: a8_take_bit tb3_and_not7)

lemma and_not7_id: "a8 v \<Longrightarrow> v AND NOT 7 = v"
proof -
  assume "a8 v"
  then have z: "v AND mask 3 = 0" by (simp add: a8_take_bit take_bit_eq_mask)
  show "v AND NOT 7 = v" unfolding seven
  proof (rule bit_word_eqI)
    fix n assume "n < LENGTH(64)"
    from z have "\<not> bit (v AND mask 3) n" by simp
    then show "bit (v AND NOT (mask 3)) n = bit v n"
      using \<open>n < LENGTH(64)\<close> by (auto simp: bit_simps)
  qed
qed

lemma or1_and_not7: "a8 v \<Longrightarrow> (v OR 1) AND NOT 7 = v"
proof -
  assume a: "a8 v"
  have "(v OR 1) AND NOT 7 = (v AND NOT 7) OR (1 AND NOT 7)"
    by (simp add: bit.conj_disj_distrib2)
  also have "(1 :: word64) AND NOT 7 = 0" by simp
  finally show ?thesis using and_not7_id[OF a] by simp
qed

lemma or1_and7: "a8 v \<Longrightarrow> (v OR 1) AND 7 = 1"
proof -
  assume a: "a8 v"
  then have z: "v AND 7 = 0" by (simp add: a8_take_bit take_bit_eq_mask seven)
  have "(v OR 1) AND 7 = (v AND 7) OR (1 AND 7)"
    by (simp add: bit.conj_disj_distrib2)
  also have "(1 :: word64) AND 7 = 1" by simp
  finally show ?thesis using z by simp
qed

lemma a8_and7: "a8 v \<Longrightarrow> v AND 7 = 0"
  by (simp add: a8_take_bit take_bit_eq_mask seven)

lemma a8_bounds:
  assumes "a8 d" "d \<noteq> 0"
  shows "8 \<le> unat d" "unat d \<le> 2 ^ 64 - 8"
proof -
  from assms(1) have m: "unat d mod 8 = 0" by (simp add: a8_unat)
  from assms(2) have nz: "unat d \<noteq> 0" by (simp add: unat_eq_0)
  have b: "unat d < 18446744073709551616" using unsigned_less[of d, where 'a=nat] by simp
  from m nz show "8 \<le> unat d" by presburger
  from m b have "unat d \<le> 18446744073709551608" by presburger
  then show "unat d \<le> 2 ^ 64 - 8" by simp
qed

lemma a8_minus: "a8 d \<Longrightarrow> a8 (- d)"
  using a8_diff[of 0 d] by (simp add: a8_def)

subsection \<open>Reading and writing words\<close>

lemma bit_byte_of_shifted:
  "bit (push_bit k (ucast (byte_of v i) :: word64)) n \<longleftrightarrow>
     (k \<le> n \<and> n < k + 8 \<and> n < 64 \<and> bit v (8 * i + (n - k)))"
  by (auto simp add: byte_of_def bit_simps)

lemma bit_byte_of:
  "bit (ucast (byte_of v i) :: word64) n \<longleftrightarrow> (n < 8 \<and> bit v (8 * i + n))"
  by (auto simp add: byte_of_def bit_simps)

lemma bytes_join:
  "ucast (byte_of v 0) OR push_bit 8 (ucast (byte_of v 1)) OR push_bit 16 (ucast (byte_of v 2))
     OR push_bit 24 (ucast (byte_of v 3)) OR push_bit 32 (ucast (byte_of v 4))
     OR push_bit 40 (ucast (byte_of v 5)) OR push_bit 48 (ucast (byte_of v 6))
     OR push_bit 56 (ucast (byte_of v 7)) = (v :: word64)"
proof (rule bit_word_eqI)
  fix n assume n: "n < LENGTH(64)"
  then consider "n < 8" | "8 \<le> n" "n < 16" | "16 \<le> n" "n < 24" | "24 \<le> n" "n < 32"
     | "32 \<le> n" "n < 40" | "40 \<le> n" "n < 48" | "48 \<le> n" "n < 56" | "56 \<le> n" "n < 64"
    by fastforce
  then show "bit (ucast (byte_of v 0) OR push_bit 8 (ucast (byte_of v 1)) OR push_bit 16 (ucast (byte_of v 2))
     OR push_bit 24 (ucast (byte_of v 3)) OR push_bit 32 (ucast (byte_of v 4))
     OR push_bit 40 (ucast (byte_of v 5)) OR push_bit 48 (ucast (byte_of v 6))
     OR push_bit 56 (ucast (byte_of v 7)) :: word64) n = bit v n"
    unfolding bit_or_iff bit_byte_of_shifted bit_byte_of
    by cases simp_all
qed

lemma PUT_at: "i < 8 \<Longrightarrow> PUT m p v (p + of_nat i) = byte_of v i"
  by (simp add: PUT_def unat_of_nat word_less_nat_alt)

lemma GET_PUT_same: "GET (PUT m p v) p = v"
proof -
  from PUT_at[of 0 m p v] PUT_at[of 1 m p v] PUT_at[of 2 m p v] PUT_at[of 3 m p v]
    PUT_at[of 4 m p v] PUT_at[of 5 m p v] PUT_at[of 6 m p v] PUT_at[of 7 m p v]
  show ?thesis unfolding GET_def using bytes_join[of v] by simp
qed

lemma far_apart:
  fixes p q :: word64
  assumes "8 \<le> q - p" "8 \<le> p - q" "i < 8"
  shows "\<not> (q + of_nat i - p < 8)"
proof -
  have i: "unat (of_nat i :: word64) = i" using assms(3) by (simp add: unat_of_nat)
  have bp: "unat p < 2 ^ 64" and bq: "unat q < 2 ^ 64"
    using unsigned_less[of p, where 'a=nat] unsigned_less[of q, where 'a=nat] by simp_all
  show ?thesis
    using assms bp bq
    apply (simp add: word_le_nat_alt word_less_nat_alt unat_sub_if_size unat_plus_if_size word_size i
        split: if_splits)
     apply arith+
    done
qed

lemma PUT_far:
  assumes "8 \<le> q - p" "8 \<le> p - q" "i < 8"
  shows "PUT m p v (q + of_nat i) = m (q + of_nat i)"
  using far_apart[OF assms] by (simp add: PUT_def)

text \<open>Two words that do not overlap: a write to one leaves the other as it was.\<close>

lemma GET_PUT_other:
  assumes "8 \<le> q - p" "8 \<le> p - q"
  shows "GET (PUT m p v) q = GET m q"
proof -
  note f = PUT_far[OF assms, of _ m v]
  from f[of 0] f[of 1] f[of 2] f[of 3] f[of 4] f[of 5] f[of 6] f[of 7]
  show ?thesis unfolding GET_def by simp
qed

subsection \<open>Boundary tags\<close>

lemma not7: "NOT (7 :: word64) = - 8" by simp

lemma SIZE_PACK: "a8 sz \<Longrightarrow> SIZE (PACK sz ALLOC) = sz" "a8 sz \<Longrightarrow> SIZE (PACK sz FREE) = sz"
  by (simp_all add: SIZE_def PACK_def ALLOC_def FREE_def SIZE_MASK_def STATUS_MASK_def or1_and_not7[unfolded not7] and_not7_id[unfolded not7])

lemma STATUS_PACK: "a8 sz \<Longrightarrow> STATUS (PACK sz ALLOC) = ALLOC" "a8 sz \<Longrightarrow> STATUS (PACK sz FREE) = FREE"
  by (simp_all add: STATUS_def PACK_def ALLOC_def FREE_def STATUS_MASK_def or1_and7 a8_and7)

lemma a8_SIZE: "a8 (SIZE v)"
  by (simp add: SIZE_def SIZE_MASK_def STATUS_MASK_def a8_and_not7[unfolded not7])

lemma a8_GET_SIZE: "a8 (GET_SIZE s p)"
  by (simp add: GET_SIZE_def a8_SIZE)

text \<open>Two words at different multiples of 8 from the same base do not overlap.\<close>

lemma GET_PUT_offset:
  assumes "a8 d" "d \<noteq> 0"
  shows "GET (PUT m p v) (p + d) = GET m (p + d)" "GET (PUT m (p + d) v) p = GET m p"
proof -
  have n: "a8 (- d)" "- d \<noteq> 0" using assms by (simp_all add: a8_minus)
  have "8 \<le> d" "8 \<le> - d"
    using a8_bounds(1)[OF assms] a8_bounds(1)[OF n] by (simp_all add: word_le_nat_alt)
  then have "8 \<le> (p + d) - p" "8 \<le> p - (p + d)" by simp_all
  then show "GET (PUT m p v) (p + d) = GET m (p + d)" "GET (PUT m (p + d) v) p = GET m p"
    by (simp_all add: GET_PUT_other)
qed

lemma GET_PUT_a8:
  assumes "a8 (q - p)"
  shows "GET (PUT m p v) q = (if q = p then v else GET m q)"
proof (cases "q = p")
  case True then show ?thesis by (simp add: GET_PUT_same)
next
  case False
  then have "q - p \<noteq> 0" by simp
  from GET_PUT_offset(1)[OF assms this, of m p v] False show ?thesis by simp
qed

lemma GET_zero_mem: "GET zero_mem p = 0"
  by (simp add: GET_def zero_mem_def)

lemma and_then_simps:
  "and_then None f = None" "and_then (Some Panic) f = Some Panic" "and_then (Some (Ret x)) f = f x"
  by (simp_all add: and_then_def)

lemmas macro_defs = TYPE_SIZE_def ALLOC_def FREE_def STATUS_MASK_def SIZE_MASK_def BS_def
  MAX_of_def PACK_def SIZE_def STATUS_def PREV_PTR_def NEXT_PTR_def ROUND_UP_def put_def
  GET_SIZE_def GET_STATUS_def HDR2FTR_def FTR2HDR_def NEXT_BLK_def NEXT_BLK_FROM_PAYLOAD_def
  ds_heap_stat_def CHUNKSIZE_def SHRINKTHLD_def SIZE_MAX_def

lemmas op_defs = mm_init_def init_heap_def mm_fresh_def mm_malloc_def find_block_def
  call_get_free_block_def ff_get_free_block_def nf_get_free_block_def nf_reset_def
  bf_get_free_block_def expand_heap_def place_def mm_free_def coalesce_prev_def
  coalesce_next_def shrink_heap_def mm_check_def ds_sbrk_def mm_calloc_def mm_realloc_def
  realloc_shrink_def realloc_absorb_def realloc_move_def

text \<open>Evaluation of the operations on a concrete heap.\<close>

lemmas eval_simps = op_defs macro_defs GET_PUT_same GET_PUT_other GET_zero_mem Let_def
  and_then_simps ex_seg_def ex_heap_def

lemma ex_heap_init:
  "mm_init (mm_fresh ex_seg zero_mem) ap_FirstFit = Ret (ex_heap ff_policy)"
  "mm_init (mm_fresh ex_seg zero_mem) ap_NextFit = Ret (ex_heap nf_policy)"
  "mm_init (mm_fresh ex_seg zero_mem) ap_BestFit = Ret (ex_heap bf_policy)"
  by (simp_all add: eval_simps)

subsection \<open>Boundary cases and no-ops\<close>

text \<open>
  C6.  In every initialized state: \<^verbatim>\<open>mm_malloc(0)\<close> returns \<^verbatim>\<open>NULL\<close> and leaves the
  state as it was; \<^verbatim>\<open>mm_free(NULL)\<close> returns the state unchanged whatever the memory
  holds, so it neither reads nor writes the heap; \<^verbatim>\<open>mm_free(p)\<close> on a block whose
  header is marked free leaves the whole state unchanged; and
  \<^verbatim>\<open>mm_realloc(NULL, n)\<close> is \<^verbatim>\<open>mm_malloc(n)\<close>.
\<close>

theorem boundary_noops:
  assumes "mm_initialized s"
  shows "mm_malloc s 0 = Some (Ret (s, 0))
       \<and> mm_free s 0 = Ret s
       \<and> (\<forall>m. mm_free (s\<lparr>mem := m\<rparr>) 0 = Ret (s\<lparr>mem := m\<rparr>))
       \<and> (GET_STATUS s (PREV_PTR p) = FREE \<longrightarrow> mm_free s p = Ret s)
       \<and> mm_realloc s 0 n = mm_malloc s n"
  using assms by (simp add: mm_malloc_def mm_free_def mm_realloc_def Let_def)

theorem boundary_noops_witness:
  "mm_initialized (ex_heap ff_policy)
   \<and> GET_STATUS (ex_heap ff_policy) (PREV_PTR 4136) = FREE
   \<and> mm_malloc (ex_heap ff_policy) 0 = Some (Ret (ex_heap ff_policy, 0))
   \<and> mm_free (ex_heap ff_policy) 0 = Ret (ex_heap ff_policy)
   \<and> mm_free (ex_heap ff_policy) 4136 = Ret (ex_heap ff_policy)
   \<and> mm_realloc (ex_heap ff_policy) 0 16 = mm_malloc (ex_heap ff_policy) 16"
proof -
  have i: "mm_initialized (ex_heap ff_policy)" by (simp add: ex_heap_def)
  have f: "GET_STATUS (ex_heap ff_policy) (PREV_PTR 4136) = FREE"
    by (simp add: ex_heap_def macro_defs GET_PUT_same GET_PUT_other)
  from boundary_noops[OF i, of 4136 16] i f show ?thesis by simp
qed

subsection \<open>The selection policies leave the heap alone\<close>

lemmas nf_loop_induct = nf_loop.raw_induct[rotated 1, consumes 1, case_names step]

lemma nf_loop_frame:
  assumes "nf_loop s n init = Some y"
  shows "fst y = s\<lparr>next_block := next_block (fst y)\<rparr> \<and> (snd y \<noteq> 0 \<longrightarrow> next_block (fst y) = snd y)
       \<and> ((next_block s < heap_end s \<or> next_block s = heap_start s)
            \<longrightarrow> (next_block (fst y) < heap_end s \<or> next_block (fst y) = heap_start s))"
  using assms
proof (induction rule: nf_loop_induct)
  case (step nf s n init y)
  show ?case
  proof (cases "GET_STATUS s (next_block s) = 0 \<and> n \<le> GET_SIZE s (next_block s)")
    case True
    with step(2) have "y = (s, next_block s)" by simp
    then show ?thesis by simp
  next
    case False
    define s1 where "s1 = s\<lparr>next_block := next_block s + GET_SIZE s (next_block s)\<rparr>"
    define s2 where "s2 = (if heap_end s1 \<le> next_block s1 then s1\<lparr>next_block := heap_start s1\<rparr> else s1)"
    have s2: "s2 = s\<lparr>next_block := next_block s2\<rparr>" "heap_end s2 = heap_end s" "heap_start s2 = heap_start s"
      "next_block s2 < heap_end s \<or> next_block s2 = heap_start s"
      by (auto simp: s1_def s2_def not_le)
    have y: "(if next_block s2 = init then Some (s2, 0) else nf s2 n init) = Some y"
      using step(2) False unfolding s2_def s1_def Let_def by (simp only: if_False)
    show ?thesis
    proof (cases "next_block s2 = init")
      case True
      with y have "y = (s2, 0)" by simp
      then show ?thesis using s2 by simp
    next
      case False
      with y have "nf s2 n init = Some y" by simp
      from step(1)[OF this] s2 show ?thesis
        by (metis (no_types, lifting) mm_state.surjective mm_state.update_convs(9))
    qed
  qed
qed

lemma nf_get_free_block_frame:
  assumes "nf_get_free_block s n = Some (Ret (s', r))"
  shows "s' = s\<lparr>next_block := next_block s'\<rparr>"
    and "r \<noteq> 0 \<Longrightarrow> next_block s' = r \<and> next_block (nf_reset s') = r"
proof -
  from assms have i: "mm_initialized s" and l: "nf_loop (nf_reset s) n (next_block (nf_reset s)) = Some (s', r)"
    by (auto simp: nf_get_free_block_def split: if_splits)
  have c: "next_block (nf_reset s) < heap_end (nf_reset s) \<or> next_block (nf_reset s) = heap_start (nf_reset s)"
    by (auto simp: nf_reset_def not_le)
  have e: "heap_end (nf_reset s) = heap_end s" "heap_start (nf_reset s) = heap_start s"
    "nf_reset s = s\<lparr>next_block := next_block (nf_reset s)\<rparr>"
    by (simp_all add: nf_reset_def)
  from nf_loop_frame[OF l] c
  have f: "s' = (nf_reset s)\<lparr>next_block := next_block s'\<rparr>" "r \<noteq> 0 \<longrightarrow> next_block s' = r"
    "next_block s' < heap_end s \<or> next_block s' = heap_start s"
    by (auto simp add: e(1,2))
  from f(1) e(3) show g: "s' = s\<lparr>next_block := next_block s'\<rparr>"
    by (metis (no_types, lifting) mm_state.surjective mm_state.update_convs(9))
  then have h: "heap_end s' = heap_end s" "heap_start s' = heap_start s"
    by (metis mm_state.select_convs(6) mm_state.surjective mm_state.update_convs(9),
        metis mm_state.select_convs(5) mm_state.surjective mm_state.update_convs(9))
  assume "r \<noteq> 0"
  with f(2) have n: "next_block s' = r" by simp
  with f(3) h \<open>r \<noteq> 0\<close> show "next_block s' = r \<and> next_block (nf_reset s') = r"
    by (auto simp: nf_reset_def)
qed

text \<open>
  C10.  None of the three policies writes memory.  First fit and best fit
  return the state they were given; next fit changes nothing but its cursor
  \<^verbatim>\<open>next_block\<close>, and after a successful search the cursor is the block it
  returned, which is also where the following search starts scanning.
\<close>

theorem policies_frame:
  "(ff_get_free_block s n = Some (Ret (s1, r1)) \<longrightarrow> s1 = s)
   \<and> (bf_get_free_block s n = Some (Ret (s2, r2)) \<longrightarrow> s2 = s)
   \<and> (nf_get_free_block s n = Some (Ret (s3, r3)) \<longrightarrow>
        s3 = s\<lparr>next_block := next_block s3\<rparr>
        \<and> (r3 \<noteq> 0 \<longrightarrow> next_block s3 = r3 \<and> next_block (nf_reset s3) = r3))"
  using nf_get_free_block_frame[of s n s3 r3]
  by (auto simp: ff_get_free_block_def bf_get_free_block_def split: if_splits)

lemmas loop_simps = ff_loop.simps nf_loop.simps bf_loop.simps check_loop.simps

theorem policies_frame_witness:
  "ff_get_free_block (ex_heap nf_policy) 32 = Some (Ret (ex_heap nf_policy, 4128))
   \<and> bf_get_free_block (ex_heap nf_policy) 32 = Some (Ret (ex_heap nf_policy, 4128))
   \<and> nf_get_free_block (ex_heap nf_policy) 32
       = Some (Ret ((ex_heap nf_policy)\<lparr>next_block := 4128\<rparr>, 4128))
   \<and> (4128 :: word64) \<noteq> 0
   \<and> next_block (nf_reset ((ex_heap nf_policy)\<lparr>next_block := 4128\<rparr>)) = 4128"
proof -
  have f: "ff_get_free_block (ex_heap nf_policy) 32 = Some (Ret (ex_heap nf_policy, 4128))"
    by (simp add: eval_simps loop_simps)
  have b: "bf_get_free_block (ex_heap nf_policy) 32 = Some (Ret (ex_heap nf_policy, 4128))"
    by (simp add: eval_simps loop_simps)
  have n: "nf_get_free_block (ex_heap nf_policy) 32
       = Some (Ret ((ex_heap nf_policy)\<lparr>next_block := 4128\<rparr>, 4128))"
    by (simp add: eval_simps loop_simps)
  from policies_frame[of "ex_heap nf_policy" 32 "ex_heap nf_policy" 4128 "ex_heap nf_policy" 4128
      "(ex_heap nf_policy)\<lparr>next_block := 4128\<rparr>" 4128] f b n
  show ?thesis by simp
qed

subsection \<open>Client programs that break the heap\<close>

lemma memcpy_zero: "memcpy m d s 0 = m"
  by (simp add: memcpy_def)

lemma GET_memcpy_inside:
  assumes "q - d \<le> n - 8" "8 \<le> n"
  shows "GET (memcpy m d s n) q = GET m (s + (q - d))"
proof -
  have i: "\<And>i. i < 8 \<Longrightarrow> q + of_nat i - d < n \<and> s + (q + of_nat i - d) = s + (q - d) + of_nat i"
  proof -
    fix i :: nat assume i: "i < 8"
    have ui: "unat (of_nat i :: word64) = i" using i by (simp add: unat_of_nat)
    have bn: "unat n < 2 ^ 64" using unsigned_less[of n, where 'a=nat] by simp
    have e: "q + of_nat i - d = (q - d) + of_nat i" by simp
    have "unat ((q - d) + of_nat i) < unat n"
      using assms i bn
      apply (simp add: word_le_nat_alt unat_sub_if_size unat_plus_if_size word_size ui split: if_splits)
      apply arith+
      done
    then have "(q - d) + of_nat i < n" by (simp only: word_less_nat_alt)
    then show "q + of_nat i - d < n \<and> s + (q + of_nat i - d) = s + (q - d) + of_nat i"
      unfolding e by (simp add: add.assoc)
  qed
  from i[of 0] i[of 1] i[of 2] i[of 3] i[of 4] i[of 5] i[of 6] i[of 7]
  show ?thesis unfolding GET_def memcpy_def by (simp add: algebra_simps)
qed

lemma GET_memcpy_outside:
  assumes "n \<le> q - d" "8 \<le> d - q"
  shows "GET (memcpy m d s n) q = GET m q"
proof -
  have i: "\<And>i. i < 8 \<Longrightarrow> \<not> (q + of_nat i - d < n)"
  proof -
    fix i :: nat assume i: "i < 8"
    have ui: "unat (of_nat i :: word64) = i" using i by (simp add: unat_of_nat)
    have bn: "unat n < 2 ^ 64" "unat q < 2 ^ 64" "unat d < 2 ^ 64"
      using unsigned_less[of n, where 'a=nat] unsigned_less[of q, where 'a=nat] unsigned_less[of d, where 'a=nat] by simp_all
    show "\<not> (q + of_nat i - d < n)"
      using assms i bn
      apply (simp add: word_le_nat_alt word_less_nat_alt unat_sub_if_size unat_plus_if_size word_size ui split: if_splits)
      apply arith+
      done
  qed
  from i[of 0] i[of 1] i[of 2] i[of 3] i[of 4] i[of 5] i[of 6] i[of 7]
  show ?thesis unfolding GET_def memcpy_def by simp
qed

lemmas eval_simps2 = eval_simps loop_simps GET_memcpy_inside GET_memcpy_outside

text \<open>
  C1.  The heap invariant does not survive every sequence of calls.  Under
  next fit, \<^verbatim>\<open>mm_free\<close> merges the block the cursor points to into its left
  neighbour and leaves the cursor inside the merged free block.  The next two
  allocations are carved out of the stale tags found there, and the second one
  overwrites the footer of the enclosing free block: at \<^verbatim>\<open>heap_start\<close> the header
  says 960 and the footer 864, and \<^verbatim>\<open>mm_check\<close> ends in \<^verbatim>\<open>mm_panic\<close>.
\<close>

theorem stale_cursor_breaks_heap:
  "and_then stale_cursor_client mm_check = Some Panic
   \<and> and_then stale_cursor_client
        (\<lambda>s. Some (Ret (heap_start s, GET (mem s) (heap_start s), GET (mem s) (HDR2FTR s (heap_start s)))))
      = Some (Ret (4128, 960, 864))"
  by (simp add: stale_cursor_client_def coalesced_client_def eval_simps2)

text \<open>
  A second way to the same end, under any policy: the block size of a request
  of \<open>2\<^sup>6\<^sup>4 - 16\<close> bytes wraps round to 0, and the split writes an allocated tag of
  size 0 over the footer of the block before the candidate.
\<close>

lemma overflow_breaks_heap:
  "and_then overflow_client mm_check = Some Panic
   \<and> and_then overflow_client
        (\<lambda>s. Some (Ret (heap_start s, GET (mem s) (heap_start s), GET (mem s) (HDR2FTR s (heap_start s)))))
      = Some (Ret (4128, 33, 1))"
  by (simp add: overflow_client_def eval_simps2)

text \<open>
  C2.  A block followed by a free block that is large enough is not grown in
  place.  \<^verbatim>\<open>NEXT_BLK_FROM_PAYLOAD\<close> adds the block size to the payload pointer, so
  the test reads the first payload word of the following block, not its
  header.  Here that word is 0: the block counts as free with size 0, the
  combined size is too small, and the call falls through to allocate, copy and
  free.  The block at 4136, followed by 928 free bytes, moves to 4168.
\<close>

theorem realloc_grow_moves: "grow_client = Some (Ret (4136, 928, 4168, 32, 65))"
  by (simp add: grow_client_def eval_simps2)

text \<open>
  C3.  When the block has to move, \<^verbatim>\<open>copy_size\<close> is \<^verbatim>\<open>old_size - TYPE_SIZE\<close>: 24
  bytes for a block of 32, that is the 16 bytes of payload and the footer.  The
  third payload word of the new block, 0 before the call, holds the old
  footer tag 33 afterwards.
\<close>

theorem realloc_copies_footer: "move_client = Some (Ret (4136, 4200, 33, 0, 33))"
  by (simp add: move_client_def eval_simps2)

subsection \<open>A next-fit search that does not end\<close>

text \<open>
  The loop of \<^verbatim>\<open>nf_get_free_block\<close> stops when the cursor comes back to where the
  scan began.  When the scan restarts at \<^verbatim>\<open>heap_start\<close> on a single block that does
  not fit, and began elsewhere, it never does.
\<close>

lemma nf_loop_spin_aux:
  assumes "nf_loop t m j = Some y"
  shows "\<not> (\<not> (GET_STATUS t (next_block t) = 0 \<and> m \<le> GET_SIZE t (next_block t))
            \<and> heap_end t \<le> next_block t + GET_SIZE t (next_block t)
            \<and> next_block t = heap_start t \<and> heap_start t \<noteq> j)"
  using assms
proof (induction rule: nf_loop_induct)
  case (step nf t m j y)
  show ?case
  proof
    assume c: "\<not> (GET_STATUS t (next_block t) = 0 \<and> m \<le> GET_SIZE t (next_block t))
            \<and> heap_end t \<le> next_block t + GET_SIZE t (next_block t)
            \<and> next_block t = heap_start t \<and> heap_start t \<noteq> j"
    then have c1: "\<not> (GET_STATUS t (next_block t) = 0 \<and> m \<le> GET_SIZE t (next_block t))"
      and c2: "heap_end t \<le> next_block t + GET_SIZE t (next_block t)"
      and c3: "next_block t = heap_start t" and c4: "heap_start t \<noteq> j"
      by blast+
    define s1 where "s1 = t\<lparr>next_block := next_block t + GET_SIZE t (next_block t)\<rparr>"
    define s2 where "s2 = (if heap_end s1 \<le> next_block s1 then s1\<lparr>next_block := heap_start s1\<rparr> else s1)"
    have y: "(if next_block s2 = j then Some (s2, 0) else nf s2 m j) = Some y"
      using step(2) c1 unfolding s2_def s1_def Let_def by (simp only: if_False)
    have f: "next_block s2 = heap_start t" "heap_start s2 = heap_start t" "heap_end s2 = heap_end t"
      "mem s2 = mem t"
      using c2 by (simp_all add: s2_def s1_def)
    from y f(1) c4 have "nf s2 m j = Some y" by simp
    from step(1)[OF this] c1 c2 c3 c4 f show False
      by (simp add: GET_STATUS_def GET_SIZE_def)
  qed
qed

lemma nf_loop_spin:
  assumes "\<not> (GET_STATUS t (next_block t) = 0 \<and> m \<le> GET_SIZE t (next_block t))"
    "heap_end t \<le> next_block t + GET_SIZE t (next_block t)"
    "next_block t = heap_start t" "heap_start t \<noteq> j"
  shows "nf_loop t m j = None"
proof (cases "nf_loop t m j")
  case None then show ?thesis .
next
  case (Some y)
  from nf_loop_spin_aux[OF this] assms show ?thesis by simp
qed

lemma nf_loop_unfold_away:
  "next_block s \<noteq> heap_start s \<Longrightarrow> nf_loop s 2016 i =
     (if GET_STATUS s (next_block s) = 0 \<and> GET_SIZE s (next_block s) \<ge> 2016
      then Some (s, next_block s)
      else
        (let s1 = s\<lparr>next_block := next_block s + GET_SIZE s (next_block s)\<rparr>;
             s2 = (if next_block s1 \<ge> heap_end s1 then s1\<lparr>next_block := heap_start s1\<rparr> else s1)
         in if next_block s2 = i then Some (s2, 0)
            else nf_loop s2 2016 i))"
  by (subst nf_loop.simps) simp

text \<open>
  C8.  The next-fit search does not always end.  After the calls of
  \<open>coalesced_client\<close> the heap is one free block of 960 bytes at 4128, and the
  cursor is 4160, inside that block, where the stale tag of a free block of 32
  bytes still stands.  A search for 2016 bytes walks over the stale tags to
  \<^verbatim>\<open>heap_end\<close>, wraps to 4128 and from then on goes round the one real block
  without ever meeting 4160 again: \<^verbatim>\<open>nf_get_free_block\<close>, and \<^verbatim>\<open>mm_malloc(2000)\<close> with
  it, does not return.
\<close>

theorem next_fit_never_returns:
  "and_then coalesced_client
      (\<lambda>s. Some (Ret (next_block s, heap_start s, heap_end s, GET (mem s) (heap_start s),
                       GET (mem s) (next_block s))))
     = Some (Ret (4160, 4128, 5088, 960, 32))
   \<and> and_then coalesced_client (\<lambda>s. nf_get_free_block s 2016) = None
   \<and> and_then coalesced_client (\<lambda>s. mm_malloc s 2000) = None"
  by (simp add: coalesced_client_def eval_simps nf_loop.simps[of _ 32] nf_loop_unfold_away
      nf_loop_spin)

subsection \<open>Splitting in \<^verbatim>\<open>mm_malloc\<close>\<close>

lemma place_frame: "place s fb bs = s\<lparr>mem := mem (place s fb bs)\<rparr>"
  by (simp add: place_def put_def Let_def)

lemma unat_ROUND_UP:
  assumes "unat w \<le> 2 ^ 64 - 64"
  shows "unat (ROUND_UP w) = (unat w + 31) div 32 * 32"
proof -
  have 1: "unat (w + 32 - 1) = unat w + 31"
  proof -
    have "w + 32 - 1 = 31 + w" by simp
    moreover have "unat (31 + w) = unat w + 31"
      using assms by (simp add: unat_word_ariths)
    ultimately show ?thesis by (simp only:)
  qed
  define x where "x = (w + 32 - 1) div 32"
  have 2: "unat x = (unat w + 31) div 32"
    unfolding x_def by (simp only: unat_div 1) simp
  have "(unat w + 31) div 32 * 32 \<le> unat w + 31" by simp
  with assms have "unat x * 32 < 2 ^ 64" unfolding 2 by simp
  then have "unat x * unat (32 :: word64) < 2 ^ LENGTH(64)" by simp
  then have "unat (x * 32) = unat x * unat (32 :: word64)"
    by (simp only: unat_mult_lem[THEN iffD1])
  then have "unat (x * 32) = (unat w + 31) div 32 * 32" by (simp add: 2)
  then show ?thesis by (simp only: ROUND_UP_def BS_def x_def)
qed

lemma blocksize_bounds:
  assumes "0 < sz" "unat sz \<le> 2 ^ 64 - 80"
  shows "unat (ROUND_UP (TYPE_SIZE + sz + TYPE_SIZE)) = (8 + unat sz + 8 + 31) div 32 * 32"
    and "32 \<le> unat (ROUND_UP (TYPE_SIZE + sz + TYPE_SIZE))"
    and "unat (ROUND_UP (TYPE_SIZE + sz + TYPE_SIZE)) \<le> 2 ^ 64 - 64"
    and "a32 (ROUND_UP (TYPE_SIZE + sz + TYPE_SIZE))"
proof -
  have z: "0 < unat sz" using assms(1) by (simp add: word_less_nat_alt)
  have "TYPE_SIZE + sz + TYPE_SIZE = 16 + sz" by (simp add: TYPE_SIZE_def)
  moreover have w: "unat (16 + sz) = unat sz + 16"
    using assms(2) by (simp add: unat_word_ariths)
  ultimately have u: "unat (TYPE_SIZE + sz + TYPE_SIZE) = unat sz + 16" by (simp only:)
  then have "unat (TYPE_SIZE + sz + TYPE_SIZE) \<le> 2 ^ 64 - 64" using assms(2) by simp
  from unat_ROUND_UP[OF this] u
  have r: "unat (ROUND_UP (TYPE_SIZE + sz + TYPE_SIZE)) = (unat sz + 47) div 32 * 32" by simp
  then show "unat (ROUND_UP (TYPE_SIZE + sz + TYPE_SIZE)) = (8 + unat sz + 8 + 31) div 32 * 32"
    by (simp add: add.commute)
  from r z show "32 \<le> unat (ROUND_UP (TYPE_SIZE + sz + TYPE_SIZE))" by simp
  from r assms(2) show "unat (ROUND_UP (TYPE_SIZE + sz + TYPE_SIZE)) \<le> 2 ^ 64 - 64" by simp
  show "a32 (ROUND_UP (TYPE_SIZE + sz + TYPE_SIZE))" by (simp add: ROUND_UP_def BS_def a32_mult)
qed


lemma place_whole:
  assumes "\<not> (GET_SIZE s fb \<ge> bs + 4 * TYPE_SIZE)"
  shows "GET (mem (place s fb bs)) fb = PACK (GET_SIZE s fb) ALLOC"
    and "GET (mem (place s fb bs)) (fb + GET_SIZE s fb - 8) = PACK (GET_SIZE s fb) ALLOC"
proof -
  define F where "F = GET_SIZE s fb"
  have aF: "a8 F" by (simp add: F_def a8_GET_SIZE)
  define m1 where "m1 = PUT (mem s) fb (PACK F ALLOC)"
  have h: "HDR2FTR (put s fb (PACK F ALLOC)) fb = fb + F - 8"
    by (simp add: HDR2FTR_def GET_SIZE_def put_def GET_PUT_same SIZE_PACK aF TYPE_SIZE_def)
  have p: "mem (place s fb bs) = PUT m1 (fb + F - 8) (PACK F ALLOC)"
    using assms by (simp add: place_def Let_def h F_def[symmetric]) (simp add: put_def m1_def)
  have d: "a8 (fb - (fb + F - 8))"
  proof -
    have "fb - (fb + F - 8) = 8 - F" by simp
    then show ?thesis using aF by (simp add: a8_diff a8_num)
  qed
  show "GET (mem (place s fb bs)) fb = PACK (GET_SIZE s fb) ALLOC"
    unfolding F_def[symmetric] p by (simp add: GET_PUT_a8[OF d] m1_def GET_PUT_same)
  show "GET (mem (place s fb bs)) (fb + GET_SIZE s fb - 8) = PACK (GET_SIZE s fb) ALLOC"
    unfolding F_def[symmetric] p by (simp add: GET_PUT_same)
qed

lemma place_split:
  assumes bs: "a8 bs" "32 \<le> unat bs"
    and big: "unat bs + 32 \<le> unat (GET_SIZE s fb)"
  shows "GET (mem (place s fb bs)) fb = PACK bs ALLOC"
    and "GET (mem (place s fb bs)) (fb + bs - 8) = PACK bs ALLOC"
    and "GET (mem (place s fb bs)) (fb + bs) = PACK (GET_SIZE s fb - bs) FREE"
    and "GET (mem (place s fb bs)) (fb + GET_SIZE s fb - 8) = PACK (GET_SIZE s fb - bs) FREE"
proof -
  define F where "F = GET_SIZE s fb"
  define R where "R = F - bs"
  have aF: "a8 F" by (simp add: F_def a8_GET_SIZE)
  have aR: "a8 R" by (simp add: R_def a8_diff aF bs(1))
  have bF: "unat F < 2 ^ 64" using unsigned_less[of F, where 'a=nat] by simp
  have big': "unat bs + 32 \<le> unat F" using big by (simp add: F_def)
  have c: "bs + 4 * TYPE_SIZE \<le> F"
  proof -
    have "unat (bs + 32) = unat bs + 32" using big' bF by (simp add: unat_word_ariths)
    then show ?thesis using big' by (simp add: word_le_nat_alt TYPE_SIZE_def)
  qed
  have uR: "unat R = unat F - unat bs"
    unfolding R_def using big' by (simp add: unat_sub word_le_nat_alt)
  have ne: "bs \<noteq> 0" "F \<noteq> 8" "bs \<noteq> F" "R \<noteq> 8" "F \<noteq> 0"
    using bs(2) big' uR by auto
  define m1 where "m1 = PUT (mem s) fb (PACK bs ALLOC)"
  define m2 where "m2 = PUT m1 (fb + bs - 8) (PACK bs ALLOC)"
  define m3 where "m3 = PUT m2 (fb + bs) (PACK R FREE)"
  define m4 where "m4 = PUT m3 (fb + F - 8) (PACK R FREE)"
  have h1: "HDR2FTR (put s fb (PACK bs ALLOC)) fb = fb + bs - 8"
    by (simp add: HDR2FTR_def GET_SIZE_def put_def GET_PUT_same SIZE_PACK bs(1) TYPE_SIZE_def)
  have g2: "GET m2 fb = PACK bs ALLOC"
  proof -
    have "fb - (fb + bs - 8) = 8 - bs" by simp
    then have "a8 (fb - (fb + bs - 8))" using bs(1) by (simp add: a8_diff a8_num)
    from GET_PUT_a8[OF this] show ?thesis by (simp add: m2_def m1_def GET_PUT_same)
  qed
  have n2: "NEXT_BLK (s\<lparr>mem := m2\<rparr>) fb = fb + bs"
    by (simp add: NEXT_BLK_def GET_SIZE_def g2 SIZE_PACK bs(1))
  have h3: "HDR2FTR (s\<lparr>mem := m3\<rparr>) (fb + bs) = fb + F - 8"
    by (simp add: HDR2FTR_def GET_SIZE_def m3_def GET_PUT_same SIZE_PACK aR TYPE_SIZE_def)
      (simp add: R_def)
  have p: "mem (place s fb bs) = m4"
    using c unfolding place_def Let_def F_def[symmetric]
    by (simp add: h1) (simp add: put_def m1_def[symmetric] m2_def[symmetric] n2
        R_def[symmetric] m3_def[symmetric] h3 m4_def)
  have d1: "a8 (fb - (fb + F - 8))" "a8 (fb - (fb + bs))" "a8 ((fb + bs - 8) - (fb + F - 8))"
    "a8 ((fb + bs - 8) - (fb + bs))" "a8 ((fb + bs) - (fb + F - 8))"
  proof -
    have e: "fb - (fb + F - 8) = 8 - F" "fb - (fb + bs) = 0 - bs"
      "(fb + bs - 8) - (fb + F - 8) = bs - F" "(fb + bs - 8) - (fb + bs) = 0 - 8"
      "(fb + bs) - (fb + F - 8) = bs - (F - 8)"
      by simp_all
    show "a8 (fb - (fb + F - 8))" "a8 (fb - (fb + bs))" "a8 ((fb + bs - 8) - (fb + F - 8))"
      "a8 ((fb + bs - 8) - (fb + bs))" "a8 ((fb + bs) - (fb + F - 8))"
      unfolding e using aF bs(1) by (simp_all add: a8_diff a8_num a8_minus)
  qed
  have q: "fb \<noteq> fb + F - 8" "fb \<noteq> fb + bs" "fb + bs - 8 \<noteq> fb + F - 8"
    "fb + bs - 8 \<noteq> fb + bs" "fb + bs \<noteq> fb + F - 8"
  proof -
    from ne(2) have "F - 8 \<noteq> 0" by simp
    then have "fb \<noteq> fb + (F - 8)" by simp
    then show "fb \<noteq> fb + F - 8" by (simp add: add_diff_eq)
    show "fb \<noteq> fb + bs" using ne(1) by simp
    show "fb + bs - 8 \<noteq> fb + F - 8" using ne(3) by simp
    show "fb + bs - 8 \<noteq> fb + bs" by simp
    show "fb + bs \<noteq> fb + F - 8"
    proof
      assume "fb + bs = fb + F - 8"
      then have "fb + bs = fb + (F - 8)" by (simp only: add_diff_eq)
      then have "bs = F - 8" by (simp only: add_left_cancel)
      then have "F - bs = 8" by simp
      with ne(4) show False by (simp add: R_def)
    qed
  qed
  show "GET (mem (place s fb bs)) fb = PACK bs ALLOC"
    unfolding p m4_def m3_def
    by (simp only: GET_PUT_a8[OF d1(1)] GET_PUT_a8[OF d1(2)] q if_False g2)
  show "GET (mem (place s fb bs)) (fb + bs - 8) = PACK bs ALLOC"
    unfolding p m4_def m3_def m2_def
    by (simp only: GET_PUT_a8[OF d1(3)] GET_PUT_a8[OF d1(4)] q if_False GET_PUT_same)
  show "GET (mem (place s fb bs)) (fb + bs) = PACK (GET_SIZE s fb - bs) FREE"
    unfolding F_def[symmetric] R_def[symmetric] p m4_def m3_def
    by (simp only: GET_PUT_a8[OF d1(5)] q if_False GET_PUT_same)
  show "GET (mem (place s fb bs)) (fb + GET_SIZE s fb - 8) = PACK (GET_SIZE s fb - bs) FREE"
    unfolding F_def[symmetric] R_def[symmetric] p m4_def by (simp add: GET_PUT_same)
qed


lemma unat_in_block:
  fixes fb :: word64
  assumes "unat fb + unat c < 2 ^ 64" "unat x \<le> unat c"
  shows "unat (fb + x) = unat fb + unat x"
  using assms by (simp add: unat_word_ariths)

lemma unat_in_block8:
  fixes fb :: word64
  assumes "unat fb + unat c < 2 ^ 64" "unat x \<le> unat c" "8 \<le> unat x"
  shows "unat (fb + x - 8) = unat fb + unat x - 8"
proof -
  have a: "unat (fb + x) = unat fb + unat x" by (rule unat_in_block[OF assms(1,2)])
  have "(8 :: word64) \<le> fb + x" using a assms(3) by (simp add: word_le_nat_alt)
  then have "unat (fb + x - 8) = unat (fb + x) - unat (8 :: word64)" by (rule unat_sub)
  with a show ?thesis by simp
qed

lemma candidate_in_seg:
  assumes c: "candidate_ok s1 fb bs" and b: "32 \<le> unat bs"
  shows "split_in_seg s1 fb bs"
proof -
  define F where "F = GET_SIZE s1 fb"
  define lo where "lo = unat (seg_start (seg s1))"
  define hi where "hi = unat (seg_brk (seg s1))"
  have hb: "hi < 2 ^ 64" unfolding hi_def using unsigned_less[of "seg_brk (seg s1)", where 'a=nat] by simp
  from c have l: "lo \<le> unat fb" and h: "unat fb + unat F \<le> hi" and f: "unat bs \<le> unat F"
    by (simp_all add: candidate_ok_def F_def lo_def hi_def)
  have n: "unat fb + unat F < 2 ^ 64" using h hb by linarith
  have F8: "8 \<le> unat F" using f b by linarith
  have bs8: "8 \<le> unat bs" using b by linarith
  have 1: "unat (fb + F - 8) = unat fb + unat F - 8" by (rule unat_in_block8[OF n order_refl F8])
  have 2: "unat (fb + bs - 8) = unat fb + unat bs - 8" by (rule unat_in_block8[OF n f bs8])
  have 3: "unat (fb + bs) = unat fb + unat bs" by (rule unat_in_block[OF n f])
  have i0: "in_seg s1 fb" unfolding in_seg_def lo_def[symmetric] hi_def[symmetric]
    using l h F8 by linarith
  have i1: "in_seg s1 (fb + F - 8)" unfolding in_seg_def lo_def[symmetric] hi_def[symmetric] 1
    using l h F8 by linarith
  have i2: "in_seg s1 (fb + bs - 8)" unfolding in_seg_def lo_def[symmetric] hi_def[symmetric] 2
    using l h f bs8 by linarith
  have i3: "unat bs + 32 \<le> unat F \<Longrightarrow> in_seg s1 (fb + bs)"
    unfolding in_seg_def lo_def[symmetric] hi_def[symmetric] 3
    using l h by linarith
  show ?thesis unfolding split_in_seg_def F_def[symmetric] using i0 i1 i2 i3 by simp
qed

lemma blocksize_signed:
  assumes "0 < sz" "unat sz \<le> 2 ^ 63 - 48"
  shows "unat (ROUND_UP (TYPE_SIZE + sz + TYPE_SIZE)) < 2 ^ 63"
proof -
  have r: "unat sz \<le> 2 ^ 64 - 80" using assms(2) by simp
  have "(8 + unat sz + 8 + 31) div 32 * 32 \<le> 8 + unat sz + 8 + 31" by simp
  also have "\<dots> < 2 ^ 63" using assms(2) by simp
  finally show ?thesis unfolding blocksize_bounds(1)[OF assms(1) r] .
qed

text \<open>
  C4 (amended).  For a request of \<open>0 < s \<le> 2\<^sup>6\<^sup>3 - 48\<close> bytes the required block
  size is \<open>8 + s + 8\<close> rounded up to a multiple of 32, without wrapping and below
  \<open>2\<^sup>6\<^sup>3\<close>.  A candidate block, from the policy or from growing the heap, that
  lies inside the provider's range and is at least that size is split or taken
  whole as \<open>split_rule\<close> says, every tag word written lies inside the provider's
  range, and the pointer returned is the word after the header of the
  candidate.
\<close>

theorem malloc_split_rule:
  assumes "mm_initialized s" "0 < sz" "unat sz \<le> 2 ^ 63 - 48"
    and "find_block s (ROUND_UP (TYPE_SIZE + sz + TYPE_SIZE)) = Some (Ret (s1, Some fb))"
    and "candidate_ok s1 fb (ROUND_UP (TYPE_SIZE + sz + TYPE_SIZE))"
  shows "unat (ROUND_UP (TYPE_SIZE + sz + TYPE_SIZE)) = (8 + unat sz + 8 + 31) div 32 * 32
       \<and> unat (ROUND_UP (TYPE_SIZE + sz + TYPE_SIZE)) < 2 ^ 63
       \<and> (\<exists>s2. mm_malloc s sz = Some (Ret (s2, fb + 8))
              \<and> split_rule s1 fb (ROUND_UP (TYPE_SIZE + sz + TYPE_SIZE)) s2)
       \<and> split_in_seg s1 fb (ROUND_UP (TYPE_SIZE + sz + TYPE_SIZE))"
proof -
  define bs where "bs = ROUND_UP (TYPE_SIZE + sz + TYPE_SIZE)"
  have r: "unat sz \<le> 2 ^ 64 - 80" using assms(3) by simp
  note b = blocksize_bounds[OF assms(2) r, folded bs_def]
  note g = blocksize_signed[OF assms(2,3), folded bs_def]
  have nz: "sz \<noteq> 0" using assms(2) by auto
  have m: "mm_malloc s sz = Some (Ret (place s1 fb bs, fb + 8))"
    using assms(1,4) nz by (simp add: mm_malloc_def Let_def bs_def TYPE_SIZE_def)
  have w: "bs + 4 * TYPE_SIZE \<le> GET_SIZE s1 fb \<longleftrightarrow> unat bs + 32 \<le> unat (GET_SIZE s1 fb)"
  proof -
    have "unat (bs + 32) = unat bs + 32" using b(3) by (simp add: unat_word_ariths)
    then show ?thesis by (simp add: word_le_nat_alt TYPE_SIZE_def)
  qed
  have "split_rule s1 fb bs (place s1 fb bs)"
  proof (cases "unat bs + 32 \<le> unat (GET_SIZE s1 fb)")
    case True
    from place_split[OF a32_a8[OF b(4)] b(2) True] True show ?thesis
      by (simp add: split_rule_def)
  next
    case False
    with w have "\<not> bs + 4 * TYPE_SIZE \<le> GET_SIZE s1 fb" by simp
    from place_whole[OF this] False show ?thesis
      by (simp add: split_rule_def)
  qed
  with m b(1) g candidate_in_seg[OF assms(5)[folded bs_def] b(2)] show ?thesis
    unfolding bs_def by blast
qed

theorem malloc_split_rule_witness:
  "mm_initialized (ex_heap ff_policy) \<and> (0 :: word64) < 16 \<and> unat (16 :: word64) \<le> 2 ^ 63 - 48
   \<and> find_block (ex_heap ff_policy) (ROUND_UP (TYPE_SIZE + 16 + TYPE_SIZE))
       = Some (Ret (ex_heap ff_policy, Some 4128))
   \<and> candidate_ok (ex_heap ff_policy) 4128 (ROUND_UP (TYPE_SIZE + 16 + TYPE_SIZE))
   \<and> unat (ROUND_UP (TYPE_SIZE + 16 + TYPE_SIZE)) = (8 + unat (16 :: word64) + 8 + 31) div 32 * 32
   \<and> unat (ROUND_UP (TYPE_SIZE + 16 + TYPE_SIZE) :: word64) < 2 ^ 63
   \<and> (\<exists>s2. mm_malloc (ex_heap ff_policy) 16 = Some (Ret (s2, 4128 + 8))
          \<and> split_rule (ex_heap ff_policy) 4128 (ROUND_UP (TYPE_SIZE + 16 + TYPE_SIZE)) s2)
   \<and> split_in_seg (ex_heap ff_policy) 4128 (ROUND_UP (TYPE_SIZE + 16 + TYPE_SIZE))"
proof -
  have i: "mm_initialized (ex_heap ff_policy)" by (simp add: ex_heap_def)
  have f: "find_block (ex_heap ff_policy) (ROUND_UP (TYPE_SIZE + 16 + TYPE_SIZE))
       = Some (Ret (ex_heap ff_policy, Some 4128))"
    by (simp add: eval_simps loop_simps)
  have p: "(0 :: word64) < 16" and u: "unat (16 :: word64) \<le> 2 ^ 63 - 48" by simp_all
  have c: "candidate_ok (ex_heap ff_policy) 4128 (ROUND_UP (TYPE_SIZE + 16 + TYPE_SIZE))"
    by (simp add: candidate_ok_def eval_simps)
  from malloc_split_rule[OF i p u f c] i p u f c show ?thesis by blast
qed

lemma wrapped_address: "(18446744073709555672 :: word64) = 4056"
  by simp

text \<open>
  C4 as stated, for every request size, fails in two ways.  Where the block
  size wraps round: for a request of \<open>2\<^sup>6\<^sup>4 - 16\<close> bytes it is 0, the candidate of
  960 bytes exceeds it by more than 32 bytes, and the split writes the free
  remainder over the allocated header, so that the block handed out at 4136 is
  marked free.  Where the block size is \<open>2\<^sup>6\<^sup>3\<close> or more: \<^verbatim>\<open>ds_sbrk\<close> takes it for a
  negative delta, so after 880 bytes are allocated a request of \<open>2\<^sup>6\<^sup>4 - 976\<close>
  bytes shrinks the provider's range to \<open>[4096, 4160)\<close>, the candidate is the
  block at 5024 beyond the break, and the split stores the footer of the
  allocated block at 4056, below the provider's start.
\<close>

theorem malloc_split_rule_counterexample:
  "mm_initialized (ex_heap ff_policy) \<and> (0 :: word64) < 18446744073709551600
   \<and> ROUND_UP (TYPE_SIZE + 18446744073709551600 + TYPE_SIZE) = 0
   \<and> find_block (ex_heap ff_policy) 0 = Some (Ret (ex_heap ff_policy, Some 4128))
   \<and> mm_malloc (ex_heap ff_policy) 18446744073709551600
       = Some (Ret (place (ex_heap ff_policy) 4128 0, 4136))
   \<and> GET (mem (place (ex_heap ff_policy) 4128 0)) 4128 = PACK 960 FREE
   \<and> \<not> split_rule (ex_heap ff_policy) 4128 0 (place (ex_heap ff_policy) 4128 0)
   \<and> signed_growth_client
       = Some (Ret (Some 5024, 4096, 4160, 5032, 0, 18446744073709550657))"
  by (simp add: eval_simps loop_simps split_rule_def signed_growth_client_def wrapped_address)

subsection \<open>Initialization\<close>

lemma sint_small:
  fixes n :: word64
  assumes "unat n < 2 ^ 63"
  shows "sint n = uint n"
proof -
  have "n < 2 ^ 63" using assms by (simp add: word_less_nat_alt)
  then have "uint n < uint (2 ^ 63 :: word64)" by (simp only: word_less_def)
  then have u: "uint n < 2 ^ 63" by simp
  have "(0::int) \<le> uint n" by simp
  moreover have "- (2 ^ 63) \<le> (0::int)" by simp
  ultimately have l: "- (2 ^ 63) \<le> uint n" by (rule order_trans[rotated])
  from u l have "signed_take_bit 63 (uint n) = uint n"
    by (rule signed_take_bit_int_eq_self[rotated])
  then show "sint n = uint n" by (simp add: sint_uint)
qed

lemma ds_sbrk_grow:
  assumes "unat (seg_brk d) + unat n \<le> unat (seg_limit d)" "unat (seg_start d) \<le> unat (seg_brk d)"
    "unat n < 2 ^ 63"
  shows "ds_sbrk d n = (seg_brk d + n, d\<lparr>seg_brk := seg_brk d + n\<rparr>)"
proof -
  note s = sint_small[OF assms(3)]
  have c1: "uint (seg_start d) \<le> uint (seg_brk d) + uint n"
    using assms(2) unfolding uint_nat by linarith
  have c2: "uint (seg_brk d) + uint n \<le> uint (seg_limit d)"
    using assms(1) unfolding uint_nat by linarith
  have w: "word_of_int (uint (seg_brk d) + uint n) = seg_brk d + n" by simp
  show ?thesis unfolding ds_sbrk_def Let_def s by (simp only: c1 c2 w if_True simp_thms)
qed

lemma unat_plus_small:
  fixes x :: word64
  assumes "unat x + k < 2 ^ 64" "k < 2 ^ 64"
  shows "unat (x + of_nat k) = unat x + k"
proof -
  have uk: "unat (of_nat k :: word64) = k" using assms(2) by (simp add: unat_of_nat)
  then have "unat x + unat (of_nat k :: word64) < 2 ^ LENGTH(64)" using assms(1) by simp
  then have "unat (x + of_nat k) = unat x + unat (of_nat k :: word64)"
    by (simp only: unat_add_lem[THEN iffD1])
  then show ?thesis by (simp only: uk)
qed

lemma unat_times_32:
  fixes x :: word64
  assumes "unat x * 32 < 2 ^ 64"
  shows "unat (x * 32) = unat x * 32"
proof -
  have "unat x * unat (32 :: word64) < 2 ^ LENGTH(64)" using assms by simp
  then have "unat (x * 32) = unat x * unat (32 :: word64)" by (simp only: unat_mult_lem[THEN iffD1])
  then show ?thesis by simp
qed

lemma unat_heap_bounds:
  fixes st :: word64
  assumes "unat st + 1024 < 2 ^ 64"
  shows "unat ((st div 32 + 1) * 32) = (unat st div 32 + 1) * 32"
    and "unat ((st + 1024 - 8) div 32 * 32) = (unat st + 1024 - 8) div 32 * 32"
proof -
  define x where "x = st div 32"
  have ux: "unat x = unat st div 32" unfolding x_def by (simp add: unat_div)
  have "unat x + 1 < 2 ^ 64" using assms by (simp add: ux)
  from unat_plus_small[OF this] have u1: "unat (x + 1) = unat st div 32 + 1" by (simp add: ux)
  define y where "y = x + 1"
  have uy: "unat y = unat st div 32 + 1" unfolding y_def by (rule u1)
  have "(unat st div 32 + 1) * 32 \<le> unat st + 32" by simp
  with assms have "unat y * 32 < 2 ^ 64" by (simp add: uy)
  from unat_times_32[OF this] have "unat (y * 32) = (unat st div 32 + 1) * 32" by (simp add: uy)
  then show "unat ((st div 32 + 1) * 32) = (unat st div 32 + 1) * 32"
    unfolding y_def x_def .
  define b where "b = st + 1024 - 8"
  have "b = st + of_nat 1016" by (simp add: b_def)
  moreover have "unat (st + of_nat 1016) = unat st + 1016"
    using assms by (intro unat_plus_small) simp_all
  ultimately have ub: "unat b = unat st + 1016" by (simp only:)
  define z where "z = b div 32"
  have uz: "unat z = (unat st + 1016) div 32" unfolding z_def by (simp add: unat_div ub)
  have "(unat st + 1016) div 32 * 32 \<le> unat st + 1016" by simp
  with assms have "unat z * 32 < 2 ^ 64" by (simp add: uz)
  from unat_times_32[OF this] have "unat (z * 32) = (unat st + 1024 - 8) div 32 * 32" by (simp add: uz)
  then show "unat ((st + 1024 - 8) div 32 * 32) = (unat st + 1024 - 8) div 32 * 32"
    unfolding z_def b_def .
qed


lemma first_chunk_size: "((n::nat) div 32 + 1) * 32 + 960 \<le> (n + 1024 - 8) div 32 * 32"
proof -
  define q where "q = n div 32"
  define k where "k = (n + 1016) div 32"
  have 1: "n = q * 32 + n mod 32" unfolding q_def by simp
  have 2: "n + 1016 = k * 32 + (n + 1016) mod 32" unfolding k_def by simp
  have 3: "n mod 32 < 32" "(n + 1016) mod 32 < 32" by simp_all
  from 1 2 3 have "q + 31 \<le> k" by linarith
  then have "(q + 1) * 32 + 960 \<le> k * 32" by simp
  then show ?thesis unfolding q_def k_def by (simp add: add.commute)
qed

lemma a32_neq_8: "a32 x \<Longrightarrow> x \<noteq> 8"
  by (auto simp: a32_take_bit)

text \<open>
  C7 (amended).  On a clean provider with room for the first chunk, \<^verbatim>\<open>mm_init\<close>
  sets \<^verbatim>\<open>heap_start\<close> to the first 32-byte boundary strictly above the provider's
  start and \<^verbatim>\<open>heap_end\<close> to the last 32-byte boundary at or below the provider's
  end minus one word, and writes the left sentinel just before \<^verbatim>\<open>heap_start\<close>,
  one free block spanning the two, and the right sentinel at \<^verbatim>\<open>heap_end\<close>.
\<close>

theorem init_layout:
  assumes "policy_of ap = Some f" "seg_start d \<noteq> 0" "seg_brk d = seg_start d"
    "seg_pagesize d \<noteq> 0" "unat (seg_start d) + 1024 \<le> unat (seg_limit d)"
  shows "\<exists>s. mm_init (mm_fresh d m) ap = Ret s \<and> mm_initialized s \<and> get_free_block s = Some f
      \<and> seg_brk (seg s) = seg_start d + 1024
      \<and> unat (seg_brk (seg s)) = unat (seg_start d) + 1024
      \<and> unat (heap_start s) = (unat (seg_start d) div 32 + 1) * 32
      \<and> unat (heap_end s) = (unat (seg_brk (seg s)) - 8) div 32 * 32
      \<and> GET (mem s) (heap_start s - 8) = PACK 0 ALLOC
      \<and> GET (mem s) (heap_start s) = PACK (heap_end s - heap_start s) FREE
      \<and> GET (mem s) (heap_end s - 8) = PACK (heap_end s - heap_start s) FREE
      \<and> GET (mem s) (heap_end s) = PACK 0 ALLOC"
proof -
  define st where "st = seg_start d"
  define hs where "hs = (st div 32 + 1) * 32"
  define he where "he = (st + 1024 - 8) div 32 * 32"
  define sz where "sz = he - hs"
  have lim: "unat st + 1024 < 2 ^ 64"
    using assms(5) unsigned_less[of "seg_limit d", where 'a=nat] by (simp add: st_def)
  have sb: "ds_sbrk d CHUNKSIZE = (st + 1024, d\<lparr>seg_brk := st + 1024\<rparr>)"
    using ds_sbrk_grow[of d 1024] assms(3,5) by (simp add: CHUNKSIZE_def st_def)
  have ub: "unat (st + 1024) = unat st + 1024"
    using unat_plus_small[of st 1024] lim by simp
  note u = unat_heap_bounds[OF lim, folded hs_def he_def]
  have a: "a32 hs" "a32 he" unfolding hs_def he_def by (rule a32_mult)+
  have far: "unat hs + 960 \<le> unat he" unfolding u by (rule first_chunk_size)
  have ne: "hs \<noteq> he" using far by auto
  have asz: "a32 sz" unfolding sz_def using a by (simp add: a32_diff)
  define m4 where "m4 = PUT (PUT (PUT (PUT m (hs - 8) (PACK 0 ALLOC)) hs (PACK sz FREE))
      (he - 8) (PACK sz FREE)) he (PACK 0 ALLOC)"
  define s where "s = \<lparr>mem = m4, seg = d\<lparr>seg_brk := st + 1024\<rparr>, ds_heap_start = st,
     ds_heap_brk = st + 1024, heap_start = hs, heap_end = he, PAGESIZE = seg_pagesize d,
     get_free_block = Some f, next_block = 0, mm_initialized = True\<rparr>"
  have r: "mm_init (mm_fresh d m) ap = Ret s"
    using assms(1-4)
    by (simp add: mm_init_def init_heap_def mm_fresh_def ds_heap_stat_def sb Let_def put_def
        PREV_PTR_def TYPE_SIZE_def BS_def s_def m4_def hs_def he_def sz_def st_def)
  have d8: "a8 ((hs - 8) - he)" "a8 ((hs - 8) - (he - 8))" "a8 ((hs - 8) - hs)" "a8 (hs - he)"
    "a8 (hs - (he - 8))" "a8 ((he - 8) - he)"
    using a32_a8[OF a(1)] a32_a8[OF a(2)] by (auto intro!: a8_diff a8_num a8_minus)
  have q: "hs - 8 \<noteq> he" "hs - 8 \<noteq> he - 8" "hs - 8 \<noteq> hs" "hs \<noteq> he - 8" "he - 8 \<noteq> he"
  proof -
    show "hs - 8 \<noteq> he"
    proof
      assume "hs - 8 = he"
      then have "hs - he = 8" by (simp add: algebra_simps)
      with a32_neq_8[OF a32_diff[OF a]] show False by simp
    qed
    show "hs - 8 \<noteq> he - 8" using ne by simp
    show "hs - 8 \<noteq> hs" by simp
    show "hs \<noteq> he - 8"
    proof
      assume "hs = he - 8"
      then have "he - hs = 8" by (simp add: algebra_simps)
      with a32_neq_8[OF a32_diff[OF a(2,1)]] show False by simp
    qed
    show "he - 8 \<noteq> he" by simp
  qed
  have g1: "GET m4 (hs - 8) = PACK 0 ALLOC"
    unfolding m4_def
    by (simp only: GET_PUT_a8[OF d8(1)] GET_PUT_a8[OF d8(2)] GET_PUT_a8[OF d8(3)] q ne if_False
        GET_PUT_same)
  have g2: "GET m4 hs = PACK sz FREE"
    unfolding m4_def
    by (simp only: GET_PUT_a8[OF d8(4)] GET_PUT_a8[OF d8(5)] q ne if_False GET_PUT_same)
  have g3: "GET m4 (he - 8) = PACK sz FREE"
    unfolding m4_def by (simp only: GET_PUT_a8[OF d8(6)] q if_False GET_PUT_same)
  have g4: "GET m4 he = PACK 0 ALLOC"
    unfolding m4_def by (simp only: GET_PUT_same)
  have "mm_initialized s \<and> get_free_block s = Some f
      \<and> seg_brk (seg s) = seg_start d + 1024
      \<and> unat (seg_brk (seg s)) = unat (seg_start d) + 1024
      \<and> unat (heap_start s) = (unat (seg_start d) div 32 + 1) * 32
      \<and> unat (heap_end s) = (unat (seg_brk (seg s)) - 8) div 32 * 32
      \<and> GET (mem s) (heap_start s - 8) = PACK 0 ALLOC
      \<and> GET (mem s) (heap_start s) = PACK (heap_end s - heap_start s) FREE
      \<and> GET (mem s) (heap_end s - 8) = PACK (heap_end s - heap_start s) FREE
      \<and> GET (mem s) (heap_end s) = PACK 0 ALLOC"
    using g1 g2 g3 g4 u ub by (simp add: s_def sz_def st_def)
  with r show ?thesis by blast
qed

theorem init_layout_witness:
  "policy_of ap_FirstFit = Some ff_policy \<and> seg_start ex_seg \<noteq> 0 \<and> seg_brk ex_seg = seg_start ex_seg
   \<and> seg_pagesize ex_seg \<noteq> 0 \<and> unat (seg_start ex_seg) + 1024 \<le> unat (seg_limit ex_seg)
   \<and> (\<exists>s. mm_init (mm_fresh ex_seg zero_mem) ap_FirstFit = Ret s \<and> mm_initialized s
      \<and> get_free_block s = Some ff_policy
      \<and> seg_brk (seg s) = seg_start ex_seg + 1024
      \<and> unat (seg_brk (seg s)) = unat (seg_start ex_seg) + 1024
      \<and> unat (heap_start s) = (unat (seg_start ex_seg) div 32 + 1) * 32
      \<and> unat (heap_end s) = (unat (seg_brk (seg s)) - 8) div 32 * 32
      \<and> GET (mem s) (heap_start s - 8) = PACK 0 ALLOC
      \<and> GET (mem s) (heap_start s) = PACK (heap_end s - heap_start s) FREE
      \<and> GET (mem s) (heap_end s - 8) = PACK (heap_end s - heap_start s) FREE
      \<and> GET (mem s) (heap_end s) = PACK 0 ALLOC)"
proof -
  have h: "policy_of ap_FirstFit = Some ff_policy" "seg_start ex_seg \<noteq> 0"
    "seg_brk ex_seg = seg_start ex_seg" "seg_pagesize ex_seg \<noteq> 0"
    "unat (seg_start ex_seg) + 1024 \<le> unat (seg_limit ex_seg)"
    by (simp_all add: ex_seg_def)
  from init_layout[OF h, of zero_mem] h show ?thesis by blast
qed

text \<open>
  C7 as stated fails on a provider whose bounds are not word aligned: the end
  4100 + 1024 = 5124 rounded down to a 32-byte boundary is 5120, with or
  without counting 5124 itself, but \<^verbatim>\<open>heap_end\<close> is 5088, because room for the
  sentinel word is taken off before rounding.  On the aligned provider
  \<open>ex_seg\<close>, \<^verbatim>\<open>heap_start\<close> is 4128 where \<^verbatim>\<open>ROUND_UP\<close> of the start is 4096, and
  \<^verbatim>\<open>heap_end\<close> is 5088 where the end rounded down is 5120.
\<close>

theorem init_layout_counterexample:
  "mm_init (mm_fresh ex_seg_odd zero_mem) ap_FirstFit = Ret ex_heap_odd
   \<and> seg_brk (seg ex_heap_odd) = 5124 \<and> heap_end ex_heap_odd = 5088
   \<and> round_down_32 5124 = 5120 \<and> round_down_32 (5124 - 1) = 5120
   \<and> mm_init (mm_fresh ex_seg zero_mem) ap_FirstFit = Ret (ex_heap ff_policy)
   \<and> seg_start ex_seg = 4096 \<and> heap_start (ex_heap ff_policy) = 4128 \<and> ROUND_UP 4096 = 4096
   \<and> seg_brk (seg (ex_heap ff_policy)) = 5120 \<and> heap_end (ex_heap ff_policy) = 5088
   \<and> round_down_32 5120 = 5120"
  by (simp add: eval_simps ex_seg_odd_def ex_heap_odd_def round_down_32_def)

subsection \<open>When the provider cannot grow\<close>

lemma call_get_free_block_frame:
  assumes "call_get_free_block s n = Some (Ret (s1, r))"
  shows "s1 = s\<lparr>next_block := next_block s1\<rparr>" "get_free_block s = Some nf_policy \<or> s1 = s"
proof -
  show "get_free_block s = Some nf_policy \<or> s1 = s"
    using assms
    by (auto simp: call_get_free_block_def ff_get_free_block_def bf_get_free_block_def
        split: option.splits policy.splits if_splits)
  show "s1 = s\<lparr>next_block := next_block s1\<rparr>"
  proof (cases "get_free_block s = Some nf_policy")
    case True
    with assms have "nf_get_free_block s n = Some (Ret (s1, r))"
      by (simp add: call_get_free_block_def)
    then show ?thesis by (rule nf_get_free_block_frame(1))
  next
    case False
    with assms have "s1 = s"
      by (auto simp: call_get_free_block_def ff_get_free_block_def bf_get_free_block_def
        split: option.splits policy.splits if_splits)
    then show ?thesis by simp
  qed
qed

text \<open>
  C5 (amended).  When the policy finds no block and \<^verbatim>\<open>ds_sbrk\<close> fails, \<^verbatim>\<open>mm_malloc\<close>
  returns \<^verbatim>\<open>NULL\<close> and the state is the one the policy left: nothing but the
  next-fit cursor can differ from the state before the call, and under first
  fit and best fit nothing differs at all.  When \<^verbatim>\<open>mm_realloc\<close> has to move a
  block and that allocation fails, it returns \<^verbatim>\<open>NULL\<close> with the same state, so
  memory, and the original block in it, is untouched.
\<close>

theorem failed_growth_frame:
  assumes "mm_initialized s" "sz \<noteq> 0"
    and "call_get_free_block s (ROUND_UP (TYPE_SIZE + sz + TYPE_SIZE)) = Some (Ret (s1, 0))"
    and "fst (ds_sbrk (seg s1) (MAX_of CHUNKSIZE (ROUND_UP (TYPE_SIZE + sz + TYPE_SIZE)))) = 0"
  shows "mm_malloc s sz = Some (Ret (s1, 0))
       \<and> s1 = s\<lparr>next_block := next_block s1\<rparr>
       \<and> (get_free_block s = Some nf_policy \<or> s1 = s)
       \<and> (ptr \<noteq> 0 \<and> GET_SIZE s (PREV_PTR ptr) < ROUND_UP (TYPE_SIZE + sz + TYPE_SIZE)
            \<and> \<not> (GET_STATUS s (NEXT_BLK_FROM_PAYLOAD s ptr) = FREE
                  \<and> GET_SIZE s (PREV_PTR ptr) + GET_SIZE s (NEXT_BLK_FROM_PAYLOAD s ptr)
                      \<ge> ROUND_UP (TYPE_SIZE + sz + TYPE_SIZE))
          \<longrightarrow> mm_realloc s ptr sz = Some (Ret (s1, 0)))"
proof -
  have e: "expand_heap s1 (ROUND_UP (TYPE_SIZE + sz + TYPE_SIZE)) = None"
    using assms(4) by (simp add: expand_heap_def Let_def)
  have m: "mm_malloc s sz = Some (Ret (s1, 0))"
    using assms(1,2,3) e by (simp add: mm_malloc_def find_block_def Let_def)
  have r: "mm_realloc s ptr sz = Some (Ret (s1, 0))"
    if "ptr \<noteq> 0" "GET_SIZE s (PREV_PTR ptr) < ROUND_UP (TYPE_SIZE + sz + TYPE_SIZE)"
      "\<not> (GET_STATUS s (NEXT_BLK_FROM_PAYLOAD s ptr) = FREE
                  \<and> GET_SIZE s (PREV_PTR ptr) + GET_SIZE s (NEXT_BLK_FROM_PAYLOAD s ptr)
                      \<ge> ROUND_UP (TYPE_SIZE + sz + TYPE_SIZE))"
  proof -
    from that(2) have n: "ROUND_UP (TYPE_SIZE + sz + TYPE_SIZE) \<noteq> GET_SIZE s (PREV_PTR ptr)"
      "\<not> ROUND_UP (TYPE_SIZE + sz + TYPE_SIZE) < GET_SIZE s (PREV_PTR ptr)"
      by auto
    show ?thesis
      using assms(1,2) that(1,3) n
      by (simp add: mm_realloc_def Let_def realloc_move_def m)
  qed
  from m r call_get_free_block_frame[OF assms(3)] show ?thesis by blast
qed

lemma ex_heap_full_init: "mm_init (mm_fresh ex_seg_full zero_mem) ap_NextFit = Ret ex_heap_full"
  by (simp add: eval_simps ex_seg_full_def ex_heap_full_def)

lemma ex_block_full_malloc: "mm_malloc ex_heap_full 16 = Some (Ret (ex_block_full, 4136))"
  by (simp add: mm_malloc_def find_block_def call_get_free_block_def nf_get_free_block_def
      nf_reset_def nf_loop.simps ex_heap_full_def ex_block_full_def macro_defs GET_PUT_same
      GET_PUT_other Let_def)

theorem failed_growth_frame_witness:
  "mm_initialized ex_block_full \<and> (2000 :: word64) \<noteq> 0
   \<and> call_get_free_block ex_block_full (ROUND_UP (TYPE_SIZE + 2000 + TYPE_SIZE))
       = Some (Ret (ex_block_full, 0))
   \<and> fst (ds_sbrk (seg ex_block_full) (MAX_of CHUNKSIZE (ROUND_UP (TYPE_SIZE + 2000 + TYPE_SIZE)))) = 0
   \<and> (4136 :: word64) \<noteq> 0
   \<and> GET_SIZE ex_block_full (PREV_PTR 4136) < ROUND_UP (TYPE_SIZE + 2000 + TYPE_SIZE)
   \<and> \<not> (GET_STATUS ex_block_full (NEXT_BLK_FROM_PAYLOAD ex_block_full 4136) = FREE
         \<and> GET_SIZE ex_block_full (PREV_PTR 4136)
             + GET_SIZE ex_block_full (NEXT_BLK_FROM_PAYLOAD ex_block_full 4136)
             \<ge> ROUND_UP (TYPE_SIZE + 2000 + TYPE_SIZE))
   \<and> mm_malloc ex_block_full 2000 = Some (Ret (ex_block_full, 0))
   \<and> mm_realloc ex_block_full 4136 2000 = Some (Ret (ex_block_full, 0))"
proof -
  have i: "mm_initialized ex_block_full" and z: "(2000 :: word64) \<noteq> 0"
    by (simp_all add: ex_block_full_def ex_heap_full_def place_def put_def Let_def)
  have c: "call_get_free_block ex_block_full (ROUND_UP (TYPE_SIZE + 2000 + TYPE_SIZE))
       = Some (Ret (ex_block_full, 0))"
    by (simp add: eval_simps loop_simps ex_block_full_def ex_heap_full_def)
  have f: "fst (ds_sbrk (seg ex_block_full) (MAX_of CHUNKSIZE (ROUND_UP (TYPE_SIZE + 2000 + TYPE_SIZE)))) = 0"
    by (simp add: eval_simps ex_block_full_def ex_heap_full_def)
  have p: "(4136 :: word64) \<noteq> 0"
    "GET_SIZE ex_block_full (PREV_PTR 4136) < ROUND_UP (TYPE_SIZE + 2000 + TYPE_SIZE)"
    "\<not> (GET_STATUS ex_block_full (NEXT_BLK_FROM_PAYLOAD ex_block_full 4136) = FREE
         \<and> GET_SIZE ex_block_full (PREV_PTR 4136)
             + GET_SIZE ex_block_full (NEXT_BLK_FROM_PAYLOAD ex_block_full 4136)
             \<ge> ROUND_UP (TYPE_SIZE + 2000 + TYPE_SIZE))"
    by (simp_all add: eval_simps ex_block_full_def ex_heap_full_def)
  from failed_growth_frame[OF i z c f, of 4136] i z c f p show ?thesis by simp
qed

text \<open>
  C5 as stated, that no allocator state at all is mutated, fails under next
  fit: right after \<^verbatim>\<open>mm_init\<close> the cursor is null, the failed \<^verbatim>\<open>mm_malloc(2000)\<close>
  leaves it at \<^verbatim>\<open>heap_start\<close>.
\<close>

theorem failed_growth_frame_counterexample:
  "mm_init (mm_fresh ex_seg_full zero_mem) ap_NextFit = Ret ex_heap_full
   \<and> fst (ds_sbrk (seg ex_heap_full) (MAX_of CHUNKSIZE (ROUND_UP (TYPE_SIZE + 2000 + TYPE_SIZE)))) = 0
   \<and> mm_malloc ex_heap_full 2000 = Some (Ret (ex_heap_full\<lparr>next_block := 4128\<rparr>, 0))
   \<and> next_block ex_heap_full = 0
   \<and> ex_heap_full\<lparr>next_block := 4128\<rparr> \<noteq> ex_heap_full"
proof -
  have "ex_heap_full\<lparr>next_block := 4128\<rparr> \<noteq> ex_heap_full"
  proof
    assume "ex_heap_full\<lparr>next_block := 4128\<rparr> = ex_heap_full"
    then have "next_block (ex_heap_full\<lparr>next_block := 4128\<rparr>) = next_block ex_heap_full"
      by (rule arg_cong)
    then show False by (simp add: ex_heap_full_def)
  qed
  moreover have "mm_malloc ex_heap_full 2000 = Some (Ret (ex_heap_full\<lparr>next_block := 4128\<rparr>, 0))"
    by (simp add: eval_simps loop_simps ex_heap_full_def)
  moreover have "fst (ds_sbrk (seg ex_heap_full) (MAX_of CHUNKSIZE (ROUND_UP (TYPE_SIZE + 2000 + TYPE_SIZE)))) = 0"
    by (simp add: eval_simps ex_heap_full_def)
  moreover have "next_block ex_heap_full = 0" by (simp add: ex_heap_full_def)
  ultimately show ?thesis using ex_heap_full_init by simp
qed

subsection \<open>Alignment of the pointers handed out\<close>

text \<open>
  Every operation keeps \<open>heap_aligned\<close>: tags are written at multiples of 8 only
  and hold multiples of 32, so every size read at a multiple of 8, from a tag or
  from the middle of a payload, is a multiple of 32, and every block the
  operations walk to starts at a multiple of 32.
\<close>

lemma bit_GET_low: "n < 8 \<Longrightarrow> bit (GET m p) n = bit (m p) n"
  by (simp add: GET_def bit_simps)

lemma a32_bits: "a32 x \<longleftrightarrow> (\<forall>n < 5. \<not> bit x n)"
proof
  assume "a32 x"
  then have z: "take_bit 5 x = 0" by (simp add: a32_take_bit)
  show "\<forall>n < 5. \<not> bit x n"
  proof (intro allI impI)
    fix n :: nat assume "n < 5"
    from z have "\<not> bit (take_bit 5 x) n" by simp
    with \<open>n < 5\<close> show "\<not> bit x n" by (simp add: bit_take_bit_iff)
  qed
next
  assume a: "\<forall>n < 5. \<not> bit x n"
  have "take_bit 5 x = 0"
    by (rule bit_word_eqI) (use a in \<open>simp add: bit_take_bit_iff\<close>)
  then show "a32 x" by (simp add: a32_take_bit)
qed

lemma bit_SIZE: "bit (SIZE v) n \<longleftrightarrow> bit v n \<and> 3 \<le> n"
proof -
  have "bit (v AND NOT (mask 3)) n \<longleftrightarrow> bit v n \<and> 3 \<le> n"
    by (auto simp: bit_simps dest: bit_imp_le_length)
  then show ?thesis by (simp add: SIZE_def SIZE_MASK_def STATUS_MASK_def seven)
qed

lemma a32_GET_SIZE_mem:
  assumes "tags_aligned m" "a8 p"
  shows "a32 (SIZE (GET m p))"
  unfolding a32_bits
proof (intro allI impI)
  fix n :: nat assume n: "n < 5"
  from assms have b: "\<not> bit (m p) 3" "\<not> bit (m p) 4" by (simp_all add: tags_aligned_def)
  from n consider "n < 3" | "n = 3" | "n = 4" by linarith
  then show "\<not> bit (SIZE (GET m p)) n"
    by cases (use b in \<open>simp_all add: bit_SIZE bit_GET_low\<close>)
qed

lemma a8_small: "a8 d \<Longrightarrow> d < 8 \<Longrightarrow> d = 0"
  using a8_bounds(1)[of d] by (auto simp: word_less_nat_alt)

lemma bit_PACK_low:
  assumes "a32 sz" "st = ALLOC \<or> st = FREE" "n = 3 \<or> n = 4"
  shows "\<not> bit (byte_of (PACK sz st) 0) n"
proof -
  from assms(1,3) have "\<not> bit sz n" by (auto simp: a32_bits)
  moreover have "\<not> bit st n" using assms(2,3) by (auto simp: ALLOC_def FREE_def bit_simps)
  ultimately show ?thesis using assms(3)
    by (auto simp: byte_of_def PACK_def bit_simps)
qed

lemma tags_aligned_PUT:
  assumes "tags_aligned m" "a8 p" "a32 sz" "st = ALLOC \<or> st = FREE"
  shows "tags_aligned (PUT m p (PACK sz st))"
  unfolding tags_aligned_def
proof (intro allI impI)
  fix a assume a: "a8 a"
  show "\<not> bit (PUT m p (PACK sz st) a) 3 \<and> \<not> bit (PUT m p (PACK sz st) a) 4"
  proof (cases "a - p < 8")
    case True
    with a8_small[OF a8_diff[OF a assms(2)]] have "a - p = 0" by simp
    then show ?thesis
      using bit_PACK_low[OF assms(3,4), of 3] bit_PACK_low[OF assms(3,4), of 4]
      by (simp add: PUT_def)
  next
    case False
    then show ?thesis using assms(1) a by (simp add: PUT_def tags_aligned_def)
  qed
qed

lemma tags_aligned_memcpy:
  assumes "tags_aligned m" "a8 d" "a8 s"
  shows "tags_aligned (memcpy m d s n)"
  unfolding tags_aligned_def memcpy_def
  using assms by (auto simp: tags_aligned_def a8_add a8_diff)

lemma tags_aligned_memset: "tags_aligned m \<Longrightarrow> tags_aligned (memset m d 0 n)"
  by (auto simp: tags_aligned_def memset_def)

lemma tags_aligned_zero: "tags_aligned zero_mem"
  by (simp add: tags_aligned_def zero_mem_def)

lemma put_fields [simp]:
  "heap_start (put s p v) = heap_start s" "heap_end (put s p v) = heap_end s"
  "next_block (put s p v) = next_block s" "seg (put s p v) = seg s"
  "mm_initialized (put s p v) = mm_initialized s" "get_free_block (put s p v) = get_free_block s"
  "mem (put s p v) = PUT (mem s) p v"
  by (simp_all add: put_def)

lemma ha_put:
  assumes "heap_aligned s" "a8 p" "a32 sz"
  shows "heap_aligned (put s p (PACK sz ALLOC))" "heap_aligned (put s p (PACK sz FREE))"
  using assms by (simp_all add: heap_aligned_def tags_aligned_PUT)

lemma ha_GET_SIZE: "heap_aligned s \<Longrightarrow> a8 p \<Longrightarrow> a32 (GET_SIZE s p)"
  by (simp add: heap_aligned_def GET_SIZE_def a32_GET_SIZE_mem)

lemma a8_ptrs:
  "a8 p \<Longrightarrow> a8 (PREV_PTR p)" "a8 p \<Longrightarrow> a8 (NEXT_PTR p)"
  "a8 p \<Longrightarrow> a8 (HDR2FTR s p)" "a8 p \<Longrightarrow> a8 (FTR2HDR s p)"
  "a8 p \<Longrightarrow> a8 (NEXT_BLK s p)" "a8 p \<Longrightarrow> a8 (NEXT_BLK_FROM_PAYLOAD s p)"
  by (simp_all add: PREV_PTR_def NEXT_PTR_def HDR2FTR_def FTR2HDR_def NEXT_BLK_def
      NEXT_BLK_FROM_PAYLOAD_def TYPE_SIZE_def a8_add a8_diff a8_num a8_GET_SIZE)

lemma a32_ptrs:
  "heap_aligned s \<Longrightarrow> a32 p \<Longrightarrow> a32 (NEXT_BLK s p)"
  "heap_aligned s \<Longrightarrow> a32 p \<Longrightarrow> a32 (FTR2HDR s (PREV_PTR p))"
proof -
  assume h: "heap_aligned s" and p: "a32 p"
  show "a32 (NEXT_BLK s p)"
    unfolding NEXT_BLK_def by (intro a32_add p ha_GET_SIZE h a32_a8)
  have "FTR2HDR s (PREV_PTR p) = p - GET_SIZE s (PREV_PTR p)"
    by (simp add: FTR2HDR_def PREV_PTR_def TYPE_SIZE_def)
  moreover have "a32 (p - GET_SIZE s (PREV_PTR p))"
    by (intro a32_diff p ha_GET_SIZE h a8_ptrs a32_a8)
  ultimately show "a32 (FTR2HDR s (PREV_PTR p))" by simp
qed

lemmas al_intros = ha_put ha_GET_SIZE a8_ptrs a32_ptrs a32_add a32_diff a32_mult
  a8_add a8_diff a8_num a8_GET_SIZE

lemma ha_place:
  assumes "heap_aligned s" "a32 fb" "a32 bs"
  shows "heap_aligned (place s fb bs)"
  unfolding place_def Let_def
  using assms a32_a8[OF assms(2)] by (auto intro!: al_intros)

lemmas ff_loop_induct = ff_loop.raw_induct[rotated 1, consumes 1, case_names step]
lemmas bf_loop_induct = bf_loop.raw_induct[rotated 1, consumes 1, case_names step]

lemma a32_ff_loop:
  assumes "ff_loop s n c = Some r"
  shows "heap_aligned s \<longrightarrow> a32 c \<longrightarrow> a32 r"
  using assms
proof (induction rule: ff_loop_induct)
  case (step ff s n c r)
  show ?case
  proof (intro impI)
    assume h: "heap_aligned s" and c: "a32 c"
    have nx: "a32 (c + GET_SIZE s c)" by (intro a32_add c ha_GET_SIZE h a32_a8)
    have "r = c \<or> r = 0 \<or> ff s n (c + GET_SIZE s c) = Some r"
      using step(2) by (simp split: if_splits)
    moreover have "a32 r" if "ff s n (c + GET_SIZE s c) = Some r"
      using step(1)[OF that] h nx by blast
    ultimately show "a32 r" using c a8_num(6) by blast
  qed
qed


lemma a32_bf_loop:
  assumes "bf_loop s n b d c = Some r"
  shows "heap_aligned s \<longrightarrow> a32 b \<longrightarrow> a32 c \<longrightarrow> a32 r"
  using assms
proof (induction rule: bf_loop_induct)
  case (step bf s n b d c r)
  show ?case
  proof (intro impI)
    assume h: "heap_aligned s" and b: "a32 b" and c: "a32 c"
    have nx: "a32 (c + GET_SIZE s c)" by (intro a32_add c ha_GET_SIZE h a32_a8)
    have "r = c \<or> r = b \<or> bf s n c (GET_SIZE s c - n) (c + GET_SIZE s c) = Some r
      \<or> bf s n b d (c + GET_SIZE s c) = Some r"
      using step(2) by (simp split: if_splits)
    moreover have "a32 r" if "bf s n c (GET_SIZE s c - n) (c + GET_SIZE s c) = Some r"
      using step(1)[OF that] h c nx by blast
    moreover have "a32 r" if "bf s n b d (c + GET_SIZE s c) = Some r"
      using step(1)[OF that] h b nx by blast
    ultimately show "a32 r" using c b by blast
  qed
qed

lemma ha_nf_loop:
  assumes "nf_loop s n i = Some y"
  shows "heap_aligned s \<longrightarrow> heap_aligned (fst y) \<and> a32 (snd y)"
  using assms
proof (induction rule: nf_loop_induct)
  case (step nf s n i y)
  show ?case
  proof (intro impI)
    assume h: "heap_aligned s"
    define s1 where "s1 = s\<lparr>next_block := next_block s + GET_SIZE s (next_block s)\<rparr>"
    define s2 where "s2 = (if heap_end s1 \<le> next_block s1 then s1\<lparr>next_block := heap_start s1\<rparr> else s1)"
    have c: "a32 (next_block s)" using h by (simp add: heap_aligned_def)
    have nx: "a32 (next_block s + GET_SIZE s (next_block s))"
      by (intro a32_add c ha_GET_SIZE h a32_a8)
    have h2: "heap_aligned s2" using h nx by (simp add: s2_def s1_def heap_aligned_def)
    have "y = (s, next_block s) \<or> y = (s2, 0) \<or> nf s2 n i = Some y"
      using step(2) unfolding s2_def s1_def Let_def by (simp split: if_splits)
    moreover have "heap_aligned (fst y) \<and> a32 (snd y)" if "nf s2 n i = Some y"
      using step(1)[OF that] h2 by blast
    moreover have "heap_aligned (fst (s, next_block s)) \<and> a32 (snd (s, next_block s))"
      using h c by simp
    moreover have "heap_aligned (fst (s2, 0 :: word64)) \<and> a32 (snd (s2, 0 :: word64))"
      using h2 by (simp add: a8_num)
    ultimately show "heap_aligned (fst y) \<and> a32 (snd y)" by blast
  qed
qed

lemma ha_call_get_free_block:
  assumes "call_get_free_block s n = Some (Ret (s1, r))" "heap_aligned s"
  shows "heap_aligned s1 \<and> a32 r"
proof (cases "get_free_block s")
  case None
  with assms show ?thesis by (simp add: call_get_free_block_def)
next
  case (Some f)
  have hs: "a32 (heap_start s)" using assms(2) by (simp add: heap_aligned_def)
  show ?thesis
  proof (cases f)
    case ff_policy
    with Some assms(1) have "ff_get_free_block s n = Some (Ret (s1, r))"
      by (simp add: call_get_free_block_def)
    then have "ff_loop s n (heap_start s) = Some r \<and> s1 = s"
      by (simp add: ff_get_free_block_def split: if_splits) blast
    with a32_ff_loop[of s n "heap_start s" r] assms(2) hs show ?thesis by simp
  next
    case bf_policy
    with Some assms(1) have "bf_get_free_block s n = Some (Ret (s1, r))"
      by (simp add: call_get_free_block_def)
    then have "bf_loop s n 0 SIZE_MAX (heap_start s) = Some r \<and> s1 = s"
      by (simp add: bf_get_free_block_def split: if_splits) blast
    with a32_bf_loop[of s n 0 SIZE_MAX "heap_start s" r] assms(2) hs show ?thesis
      by (simp add: a8_num)
  next
    case nf_policy
    with Some assms(1) have "nf_get_free_block s n = Some (Ret (s1, r))"
      by (simp add: call_get_free_block_def)
    then have l: "nf_loop (nf_reset s) n (next_block (nf_reset s)) = Some (s1, r)"
      by (simp add: nf_get_free_block_def split: if_splits)
    have "heap_aligned (nf_reset s)" using assms(2) by (simp add: nf_reset_def heap_aligned_def)
    with ha_nf_loop[OF l] show ?thesis by simp
  qed
qed

lemma ha_fields:
  "heap_aligned s \<Longrightarrow> a32 (heap_start s)" "heap_aligned s \<Longrightarrow> a32 (heap_end s)"
  "heap_aligned s \<Longrightarrow> a32 (next_block s)"
  by (simp_all add: heap_aligned_def)

lemma ha_update:
  "heap_aligned s \<Longrightarrow> heap_aligned (ds_heap_stat s)"
  "heap_aligned s \<Longrightarrow> heap_aligned (s\<lparr>seg := d\<rparr>)"
  "heap_aligned s \<Longrightarrow> a32 e \<Longrightarrow> heap_aligned (s\<lparr>heap_end := e\<rparr>)"
  by (simp_all add: heap_aligned_def ds_heap_stat_def)

lemma ha_expand_heap:
  assumes "expand_heap s bs = Some (s', fb)" "heap_aligned s"
  shows "heap_aligned s' \<and> a32 fb"
proof -
  define r where "r = ds_sbrk (seg s) (MAX_of CHUNKSIZE bs)"
  define s1 where "s1 = ds_heap_stat (s\<lparr>seg := snd r\<rparr>)"
  define s2 where "s2 = s1\<lparr>heap_end := (ds_heap_brk s1 - TYPE_SIZE) div BS * BS\<rparr>"
  define old where "old = heap_end s"
  define merge where "merge = (GET_STATUS s2 (PREV_PTR old) = FREE)"
  define old' where "old' = (if merge then old - GET_SIZE s2 (PREV_PTR old) else old)"
  define ex where "ex = (if merge then heap_end s2 - old + GET_SIZE s2 (PREV_PTR old)
                          else heap_end s2 - old)"
  define s3 where "s3 = put s2 old' (PACK ex FREE)"
  define s4 where "s4 = put s3 (HDR2FTR s3 old') (PACK ex FREE)"
  define s5 where "s5 = put s4 (heap_end s4) (PACK 0 ALLOC)"
  have eq: "expand_heap s bs = (if fst r = 0 then None else Some (s5, old'))"
    unfolding expand_heap_def Let_def s5_def s4_def s3_def ex_def old'_def merge_def old_def
      s2_def s1_def r_def by (rule refl)
  from assms(1) have res: "s' = s5" "fb = old'"
    unfolding eq by (simp_all split: if_splits)
  have o: "a32 old" unfolding old_def by (rule ha_fields(2)[OF assms(2)])
  have h1: "heap_aligned s1" unfolding s1_def by (intro ha_update assms(2))
  have h2: "heap_aligned s2" unfolding s2_def BS_def by (intro ha_update h1 a32_mult)
  have e2: "a32 (heap_end s2)" by (rule ha_fields(2)[OF h2])
  have g: "a32 (GET_SIZE s2 (PREV_PTR old))" by (intro ha_GET_SIZE h2 a8_ptrs a32_a8 o)
  have o': "a32 old'" unfolding old'_def using o g by (simp add: a32_diff)
  have x: "a32 ex" unfolding ex_def using o g e2 by (simp add: a32_diff a32_add)
  have h3: "heap_aligned s3" unfolding s3_def by (intro ha_put h2 a32_a8 o' x)
  have h4: "heap_aligned s4" unfolding s4_def by (intro ha_put h3 a8_ptrs a32_a8 o' x)
  have h5: "heap_aligned s5" unfolding s5_def
    by (intro ha_put h4 a32_a8 ha_fields(2) a8_num)
  from h5 o' res show ?thesis by simp
qed

lemma ha_find_block:
  assumes "find_block s bs = Some (Ret (s1, Some fb))" "heap_aligned s"
  shows "heap_aligned s1 \<and> a32 fb"
proof -
  from assms(1) obtain s0 r where c: "call_get_free_block s bs = Some (Ret (s0, r))"
    and d: "(r = 0 \<and> expand_heap s0 bs = Some (s1, fb)) \<or> (r \<noteq> 0 \<and> s1 = s0 \<and> fb = r)"
    by (simp add: find_block_def split: option.splits res.splits if_splits prod.splits)
  from ha_call_get_free_block[OF c assms(2)] have h: "heap_aligned s0" "a32 r" by simp_all
  from d show ?thesis
  proof
    assume "r = 0 \<and> expand_heap s0 bs = Some (s1, fb)"
    then show ?thesis using ha_expand_heap[of s0 bs s1 fb] h by simp
  next
    assume "r \<noteq> 0 \<and> s1 = s0 \<and> fb = r"
    then show ?thesis using h by simp
  qed
qed

lemma ha_find_block_none:
  assumes "find_block s bs = Some (Ret (s1, None))" "heap_aligned s"
  shows "heap_aligned s1"
proof -
  from assms(1) obtain r where c: "call_get_free_block s bs = Some (Ret (s1, r))"
    by (simp add: find_block_def split: option.splits res.splits if_splits prod.splits)
  from ha_call_get_free_block[OF c assms(2)] show ?thesis by simp
qed

lemma a32_ROUND_UP: "a32 (ROUND_UP w)"
  by (simp add: ROUND_UP_def BS_def a32_mult)

lemma ha_mm_malloc:
  assumes "mm_malloc s n = Some (Ret (s', p))" "heap_aligned s"
  shows "heap_aligned s' \<and> ptr_ok p"
proof (cases "\<not> mm_initialized s \<or> n = 0")
  case True
  with assms show ?thesis by (auto simp: mm_malloc_def ptr_ok_def split: if_splits)
next
  case False
  define bs where "bs = ROUND_UP (TYPE_SIZE + n + TYPE_SIZE)"
  have m: "mm_malloc s n = (case find_block s bs of None \<Rightarrow> None | Some Panic \<Rightarrow> Some Panic
      | Some (Ret (s1, None)) \<Rightarrow> Some (Ret (s1, 0))
      | Some (Ret (s1, Some fb)) \<Rightarrow> Some (Ret (place s1 fb bs, fb + TYPE_SIZE)))"
    using False unfolding mm_malloc_def Let_def bs_def by simp
  from assms(1) have
    "(find_block s bs = Some (Ret (s', None)) \<and> p = 0)
     \<or> (\<exists>s1 fb. find_block s bs = Some (Ret (s1, Some fb)) \<and> s' = place s1 fb bs \<and> p = fb + TYPE_SIZE)"
    unfolding m by (auto split: option.splits res.splits prod.splits)
  then show ?thesis
  proof
    assume "find_block s bs = Some (Ret (s', None)) \<and> p = 0"
    then show ?thesis using ha_find_block_none[of s bs s'] assms(2) by (simp add: ptr_ok_def)
  next
    assume "\<exists>s1 fb. find_block s bs = Some (Ret (s1, Some fb)) \<and> s' = place s1 fb bs \<and> p = fb + TYPE_SIZE"
    then obtain s1 fb where f: "find_block s bs = Some (Ret (s1, Some fb))"
      and e: "s' = place s1 fb bs" "p = fb + TYPE_SIZE" by blast
    from ha_find_block[OF f assms(2)] have h: "heap_aligned s1" "a32 fb" by simp_all
    have "heap_aligned s'" unfolding e bs_def by (intro ha_place h a32_ROUND_UP)
    moreover have "p - 8 = fb" by (simp add: e TYPE_SIZE_def)
    ultimately show ?thesis using h by (simp add: ptr_ok_def)
  qed
qed

lemma ha_coalesce_prev:
  assumes "coalesce_prev s sz hp = (s', sz', hp')" "heap_aligned s" "a32 sz" "a32 hp"
  shows "heap_aligned s' \<and> a32 sz' \<and> a32 hp'"
  using assms a32_a8[OF assms(4)]
  unfolding coalesce_prev_def Let_def
  by (auto split: if_splits intro!: al_intros)

lemma ha_coalesce_next:
  assumes "coalesce_next s sz hp = (s', sz')" "heap_aligned s" "a32 sz" "a32 hp"
  shows "heap_aligned s' \<and> a32 sz'"
  using assms a32_a8[OF assms(4)]
  unfolding coalesce_next_def Let_def
  by (auto split: if_splits intro!: al_intros)

lemma ha_shrink_heap:
  assumes "heap_aligned s" "a32 sz"
  shows "heap_aligned (shrink_heap s sz hp)"
proof -
  have e: "a32 (heap_end s - sz)" by (intro a32_diff ha_fields assms)
  show ?thesis
    unfolding shrink_heap_def Let_def
    using assms e a32_a8[OF e]
    by (auto simp: ds_heap_stat_def heap_aligned_def put_def intro!: tags_aligned_PUT a8_num)
qed

lemma ha_mm_free:
  assumes "mm_free s p = Ret s'" "heap_aligned s" "ptr_ok p"
  shows "heap_aligned s'"
proof (cases "p = 0 \<or> GET_STATUS s (PREV_PTR p) = FREE")
  case True
  with assms(1,2) show ?thesis by (auto simp: mm_free_def Let_def split: if_splits)
next
  case False
  then have hp: "a32 (PREV_PTR p)" using assms(3) by (simp add: ptr_ok_def PREV_PTR_def TYPE_SIZE_def)
  define h where "h = PREV_PTR p"
  define sz where "sz = GET_SIZE s h"
  define s1 where "s1 = put s h (PACK sz FREE)"
  define s2 where "s2 = put s1 (HDR2FTR s1 h) (PACK sz FREE)"
  obtain s3 sz3 h3 where c3: "coalesce_prev s2 sz h = (s3, sz3, h3)" by (cases "coalesce_prev s2 sz h")
  obtain s4 sz4 where c4: "coalesce_next s3 sz3 h3 = (s4, sz4)" by (cases "coalesce_next s3 sz3 h3")
  have r: "mm_free s p = Ret (shrink_heap s4 sz4 h3)"
    using False assms(1) c3 c4
    unfolding mm_free_def Let_def h_def[symmetric] sz_def[symmetric] s1_def[symmetric] s2_def[symmetric]
    by (auto split: if_splits)
  have a: "a32 h" "a8 h" using hp a32_a8[OF hp] by (simp_all add: h_def)
  have z: "a32 sz" unfolding sz_def by (intro ha_GET_SIZE assms(2) a)
  have h1: "heap_aligned s1" unfolding s1_def by (intro ha_put assms(2) a z)
  have h2: "heap_aligned s2" unfolding s2_def by (intro ha_put h1 a8_ptrs a z)
  from ha_coalesce_prev[OF c3 h2 z a(1)] have h3: "heap_aligned s3" "a32 sz3" "a32 h3" by simp_all
  from ha_coalesce_next[OF c4 h3] have h4: "heap_aligned s4" "a32 sz4" by simp_all
  from assms(1) r have "s' = shrink_heap s4 sz4 h3" by simp
  then show ?thesis using ha_shrink_heap[OF h4] by simp
qed

lemma ha_mm_calloc:
  assumes "mm_calloc s k n = Some (Ret (s', p))" "heap_aligned s"
  shows "heap_aligned s' \<and> ptr_ok p"
proof -
  from assms(1) obtain s1 where m: "mm_malloc s (k * n) = Some (Ret (s1, p))"
    and e: "s' = s1 \<or> s' = s1\<lparr>mem := memset (mem s1) p 0 (k * n)\<rparr>"
    by (auto simp: mm_calloc_def split: if_splits option.splits res.splits)
  from ha_mm_malloc[OF m assms(2)] have h: "heap_aligned s1" "ptr_ok p" by simp_all
  from e h show ?thesis by (auto simp: heap_aligned_def tags_aligned_memset)
qed

lemma ha_realloc_shrink:
  assumes "heap_aligned s" "a32 (PREV_PTR p)" "a32 old" "a32 new"
  shows "heap_aligned (realloc_shrink s p old new)"
  unfolding realloc_shrink_def Let_def
  using assms a32_a8[OF assms(2)]
  by (auto intro!: al_intros)

lemma ha_realloc_absorb:
  assumes "heap_aligned s" "a32 (PREV_PTR p)" "a32 old" "a32 nxt" "a32 new"
  shows "heap_aligned (realloc_absorb s p old nxt new)"
  unfolding realloc_absorb_def Let_def
  using assms a32_a8[OF assms(2)]
  by (auto intro!: al_intros)

lemma ptr_ok_a8: "ptr_ok p \<Longrightarrow> a8 p"
proof -
  assume "ptr_ok p"
  then consider "p = 0" | "a32 (p - 8)" by (auto simp: ptr_ok_def)
  then show ?thesis
  proof cases
    case 1 then show ?thesis by (simp add: a8_num)
  next
    case 2
    have "a8 ((p - 8) + 8)" by (intro a8_add a32_a8 2 a8_num)
    then show ?thesis by simp
  qed
qed

lemma ptr_ok_hdr: "ptr_ok p \<Longrightarrow> p \<noteq> 0 \<Longrightarrow> a32 (PREV_PTR p)"
  by (simp add: ptr_ok_def PREV_PTR_def TYPE_SIZE_def)

lemma ha_mem_update: "heap_aligned s \<Longrightarrow> tags_aligned m \<Longrightarrow> heap_aligned (s\<lparr>mem := m\<rparr>)"
  by (simp add: heap_aligned_def)

lemma ha_realloc_move:
  assumes "realloc_move s p n old = Some (Ret (s', q))" "heap_aligned s" "ptr_ok p"
  shows "heap_aligned s' \<and> ptr_ok q"
proof -
  from assms(1) obtain s1 np where m: "mm_malloc s n = Some (Ret (s1, np))"
    by (auto simp: realloc_move_def split: option.splits res.splits)
  from ha_mm_malloc[OF m assms(2)] have h1: "heap_aligned s1" and pn: "ptr_ok np" by simp_all
  show ?thesis
  proof (cases "np = 0")
    case True
    with assms(1) m h1 show ?thesis by (simp add: realloc_move_def ptr_ok_def)
  next
    case False
    define s2 where "s2 = s1\<lparr>mem := memcpy (mem s1) np p (old - TYPE_SIZE)\<rparr>"
    have "tags_aligned (mem s1)" using h1 by (simp add: heap_aligned_def)
    then have "tags_aligned (memcpy (mem s1) np p (old - TYPE_SIZE))"
      by (intro tags_aligned_memcpy ptr_ok_a8 pn assms(3))
    then have h2: "heap_aligned s2" unfolding s2_def by (intro ha_mem_update h1)
    from assms(1) m False have f: "mm_free s2 p = Ret s'" and q: "q = np"
      by (auto simp: realloc_move_def Let_def s2_def split: res.splits)
    from ha_mm_free[OF f h2 assms(3)] pn q show ?thesis by simp
  qed
qed

lemma ha_mm_realloc:
  assumes "mm_realloc s p n = Some (Ret (s', q))" "heap_aligned s" "ptr_ok p"
  shows "heap_aligned s' \<and> ptr_ok q"
proof -
  have i: "mm_initialized s" using assms(1) by (auto simp: mm_realloc_def split: if_splits)
  show ?thesis
  proof (cases "p = 0")
    case True
    with assms(1) i have "mm_malloc s n = Some (Ret (s', q))" by (simp add: mm_realloc_def)
    from ha_mm_malloc[OF this assms(2)] show ?thesis .
  next
    case p: False
    show ?thesis
    proof (cases "n = 0")
      case True
      with assms(1) i p have "mm_free s p = Ret s'" "q = 0"
        by (auto simp: mm_realloc_def split: res.splits)
      with ha_mm_free[OF _ assms(2,3)] show ?thesis by (simp add: ptr_ok_def)
    next
      case n: False
      define old where "old = GET_SIZE s (PREV_PTR p)"
      define new where "new = ROUND_UP (TYPE_SIZE + n + TYPE_SIZE)"
      define nxt where "nxt = GET_SIZE s (NEXT_BLK_FROM_PAYLOAD s p)"
      have hp: "a32 (PREV_PTR p)" by (rule ptr_ok_hdr[OF assms(3) p])
      have ao: "a32 old" unfolding old_def by (intro ha_GET_SIZE assms(2) a32_a8 hp)
      have an: "a32 new" unfolding new_def by (rule a32_ROUND_UP)
      have ax: "a32 nxt" unfolding nxt_def by (intro ha_GET_SIZE assms(2) a8_ptrs ptr_ok_a8 assms(3))
      have r: "mm_realloc s p n =
          (if new = old then Some (Ret (s, p))
           else if new < old then Some (Ret (realloc_shrink s p old new, p))
           else if GET_STATUS s (NEXT_BLK_FROM_PAYLOAD s p) = FREE \<and> old + nxt \<ge> new
             then Some (Ret (realloc_absorb s p old nxt new, p))
             else realloc_move s p n old)"
        using i p n unfolding mm_realloc_def Let_def old_def new_def nxt_def by simp
      have pk: "ptr_ok p" by (rule assms(3))
      show ?thesis
      proof (cases "new = old")
        case True
        with assms(1) r have "s' = s" "q = p" by auto
        then show ?thesis using assms(2) pk by simp
      next
        case ne: False
        show ?thesis
        proof (cases "new < old")
          case True
          with assms(1) r ne have "s' = realloc_shrink s p old new" "q = p" by auto
          then show ?thesis using ha_realloc_shrink[OF assms(2) hp ao an] pk by simp
        next
          case nl: False
          show ?thesis
          proof (cases "GET_STATUS s (NEXT_BLK_FROM_PAYLOAD s p) = FREE \<and> old + nxt \<ge> new")
            case True
            with assms(1) r ne nl have "s' = realloc_absorb s p old nxt new" "q = p" by auto
            then show ?thesis using ha_realloc_absorb[OF assms(2) hp ao ax an] pk by simp
          next
            case False
            with assms(1) r ne nl have 4: "realloc_move s p n old = Some (Ret (s', q))" by simp
            from ha_realloc_move[OF 4 assms(2,3)] show ?thesis .
          qed
        qed
      qed
    qed
  qed
qed

lemma ha_mm_init:
  assumes "mm_init (mm_fresh d zero_mem) ap = Ret s"
  shows "heap_aligned s"
proof -
  from assms obtain f where "policy_of ap = Some f" by (auto simp: mm_init_def split: option.splits)
  define t where "t = ds_heap_stat ((mm_fresh d zero_mem)\<lparr>get_free_block := Some f\<rparr>)"
  have mi: "mm_init (mm_fresh d zero_mem) ap =
      (if ds_heap_start t = 0 then Panic
       else if ds_heap_start t \<noteq> ds_heap_brk t then Panic
       else if PAGESIZE t = 0 then Panic
       else Ret (init_heap t))"
    unfolding mm_init_def Let_def t_def using \<open>policy_of ap = Some f\<close> by simp
  have s: "s = init_heap t"
    using assms unfolding mi by (simp split: if_splits)
  have ht: "heap_aligned t"
    by (simp add: t_def heap_aligned_def ds_heap_stat_def mm_fresh_def a8_num tags_aligned_zero)
  define s1 where "s1 = ds_heap_stat (t\<lparr>seg := snd (ds_sbrk (seg t) CHUNKSIZE)\<rparr>)"
  define hs where "hs = (ds_heap_start s1 div BS + 1) * BS"
  define he where "he = (ds_heap_brk s1 - TYPE_SIZE) div BS * BS"
  define s3 where "s3 = s1\<lparr>heap_start := hs, heap_end := he\<rparr>"
  have a: "a32 hs" "a32 he" unfolding hs_def he_def BS_def by (rule a32_mult)+
  have h1: "heap_aligned s1" unfolding s1_def by (intro ha_update ht)
  have h3: "heap_aligned s3" using h1 a by (simp add: s3_def heap_aligned_def)
  have f3: "heap_start s3 = hs" "heap_end s3 = he" by (simp_all add: s3_def)
  define s4 where "s4 = put s3 (PREV_PTR hs) (PACK 0 ALLOC)"
  define s5 where "s5 = put s4 hs (PACK (he - hs) FREE)"
  define s6 where "s6 = put s5 (PREV_PTR he) (PACK (he - hs) FREE)"
  define s7 where "s7 = put s6 he (PACK 0 ALLOC)"
  have e: "init_heap t = s7\<lparr>mm_initialized := True\<rparr>"
    unfolding init_heap_def Let_def s7_def s6_def s5_def s4_def s3_def hs_def he_def s1_def
    by simp
  have h4: "heap_aligned s4" unfolding s4_def by (intro ha_put h3 a8_ptrs a32_a8 a a8_num)
  have h5: "heap_aligned s5" unfolding s5_def by (intro ha_put h4 a32_a8 a a32_diff)
  have h6: "heap_aligned s6" unfolding s6_def by (intro ha_put h5 a8_ptrs a32_a8 a a32_diff)
  have h7: "heap_aligned s7" unfolding s7_def by (intro ha_put h6 a32_a8 a a8_num)
  then show ?thesis unfolding s e by (simp add: heap_aligned_def)
qed

lemma reach_aligned:
  assumes "reach s H"
  shows "heap_aligned s \<and> (\<forall>p\<in>H. ptr_ok p)"
  using assms
proof (induction rule: reach.induct)
  case (reach_init d ap s)
  then show ?case using ha_mm_init by simp
next
  case (reach_malloc s H n s' p)
  then show ?case using ha_mm_malloc by blast
next
  case (reach_calloc s H k n s' p)
  then show ?case using ha_mm_calloc by blast
next
  case (reach_realloc s H p n s' q)
  then have "ptr_ok p" by (auto simp: ptr_ok_def)
  with reach_realloc ha_mm_realloc show ?case by blast
next
  case (reach_free s H p s')
  then have "ptr_ok p" by (auto simp: ptr_ok_def)
  with reach_free ha_mm_free show ?case by blast
qed

lemma ptr_ok_mod:
  assumes "ptr_ok p" "p \<noteq> 0"
  shows "unat p mod 32 = 8"
proof -
  define q where "q = p - 8"
  from assms have a: "a32 q" by (simp add: ptr_ok_def q_def)
  then have "unat q mod 32 = 0" by (simp add: a32_unat)
  then have "32 dvd unat q" by (simp add: mod_eq_0_iff_dvd)
  then obtain k where k: "unat q = 32 * k" ..
  have "unat q < 2 ^ 64" using unsigned_less[of q, where 'a=nat] by simp
  then have kb: "k < 2 ^ 59" using k by simp
  then have b: "unat q + 8 < 2 ^ 64" using k by simp
  have "unat (q + 8) = unat q + 8" using b by (simp add: unat_word_ariths)
  moreover have "q + 8 = p" by (simp add: q_def)
  ultimately have "unat p = 32 * k + 8" using k by simp
  then show ?thesis by simp
qed

text \<open>
  As long as the client stores nothing into a payload, every pointer handed
  out is 8 past a multiple of 32.
\<close>

lemma reach_pointers_aligned:
  assumes "reach s H" "p \<in> H" "p \<noteq> 0"
  shows "unat p mod 32 = 8"
proof -
  from reach_aligned[OF assms(1)] assms(2) have "ptr_ok p" by blast
  then show ?thesis using assms(3) by (rule ptr_ok_mod)
qed

text \<open>
  C9.  A pointer \<^verbatim>\<open>mm_malloc\<close> returns is not always congruent to 8 modulo 32.
  \<^verbatim>\<open>mm_realloc\<close> looks for the block after \<open>a\<close> at \<^verbatim>\<open>NEXT_BLK_FROM_PAYLOAD(ptr)\<close>,
  the first payload word of \<open>b\<close>, and takes the 32 stored there for the tag of a
  free block: \<open>a\<close> grows in place to 64 bytes, over the header of \<open>b\<close>.  The
  walk of the next \<^verbatim>\<open>mm_malloc\<close> goes from \<open>a\<close> at 4128 to 4192, inside the payload
  of \<open>b\<close>, reads the 41 stored there as an allocated block of 40 bytes, goes on
  to 4232, reads the 32 stored there as a free block of 32 bytes and returns
  4240, which is 16 modulo 32.
\<close>

theorem payload_store_misaligns:
  "payload_client = Some (Ret (4136, 4168, 4136, 4240, 16))"
  by (simp add: payload_client_def store_def eval_simps2)

end
